theory Spec2Isabelle
  imports Main
begin

section \<open>Values, exceptions and the log\<close>

text \<open>
  The provenance document is whatever \<open>json.load\<close> returned or the dictionary built in
  \<open>__init__\<close>. A Python \<open>dict\<close> keeps insertion order, so an object is an association
  list; \<open>str\<close> and \<open>bytes\<close> are both \<open>string\<close> (a list of 8-bit characters).
  Numbers read from a file are only carried along, never inspected; fractional numbers
  are left out of the value type.
\<close>

datatype json =
    JNull
  | JBool bool
  | JNum int
  | JStr string
  | JArr "json list"
  | JObj "(string \<times> json) list"

datatype exn =
    FileNotFoundError string
  | IsADirectoryError string
  | PermissionError string
  | JSONDecodeError string
  | UnicodeDecodeError string
  | ValueError string
  | KeyError string
  | TypeError string
  | AttributeError string

fun str_exn :: "exn \<Rightarrow> string" where
  "str_exn (FileNotFoundError m) = m"
| "str_exn (IsADirectoryError m) = m"
| "str_exn (PermissionError m) = m"
| "str_exn (JSONDecodeError m) = m"
| "str_exn (UnicodeDecodeError m) = m"
| "str_exn (ValueError m) = m"
| "str_exn (KeyError m) = m"
| "str_exn (TypeError m) = m"
| "str_exn (AttributeError m) = m"

fun is_FileNotFoundError :: "exn \<Rightarrow> bool" where
  "is_FileNotFoundError (FileNotFoundError m) = True"
| "is_FileNotFoundError e = False"

fun is_JSONDecodeError :: "exn \<Rightarrow> bool" where
  "is_JSONDecodeError (JSONDecodeError m) = True"
| "is_JSONDecodeError e = False"

datatype level = INFO | WARNING | ERROR

type_synonym log_record = "level \<times> string"

section \<open>The file system\<close>

text \<open>
  A path names a regular file with its bytes, a directory, or nothing. \<open>read_err\<close> and
  \<open>write_err\<close> give the error the operating system reports when an existing file is
  opened for reading, or a path is opened for writing (permissions, a missing parent
  directory); \<open>None\<close> means the call goes through.
\<close>

datatype node = File string | Dir

record filesystem =
  entries :: "string \<rightharpoonup> node"
  read_err :: "string \<rightharpoonup> exn"
  write_err :: "string \<rightharpoonup> exn"

definition os_path_exists :: "filesystem \<Rightarrow> string \<Rightarrow> bool" where
  "os_path_exists fs p = (entries fs p \<noteq> None)"

definition open_read :: "filesystem \<Rightarrow> string \<Rightarrow> exn + string" where
  "open_read fs p =
     (case entries fs p of
        None \<Rightarrow> Inl (FileNotFoundError p)
      | Some Dir \<Rightarrow> Inl (IsADirectoryError p)
      | Some (File bs) \<Rightarrow> (case read_err fs p of Some e \<Rightarrow> Inl e | None \<Rightarrow> Inr bs))"

definition open_write :: "filesystem \<Rightarrow> string \<Rightarrow> string \<Rightarrow> exn + filesystem" where
  "open_write fs p content =
     (case entries fs p of
        Some Dir \<Rightarrow> Inl (IsADirectoryError p)
      | _ \<Rightarrow> (case write_err fs p of
                Some e \<Rightarrow> Inl e
              | None \<Rightarrow> Inr (fs\<lparr>entries := (entries fs)(p \<mapsto> File content)\<rparr>)))"

section \<open>The libraries the program calls\<close>

text \<open>
  \<open>hashlib\<close> and \<open>json\<close> are not part of the program; they are parameters of the model.
  A hasher is a streaming digest: a start state, \<open>update\<close> and \<open>digest\<close>. \<open>hasher_xof\<close> marks
  an algorithm whose digest has no fixed length (\<open>shake_128\<close> and \<open>shake_256\<close>):
  \<open>hashlib.new\<close> accepts such a name, but \<open>hexdigest\<close> then needs a length argument and
  raises \<open>TypeError\<close> when it is called without one, as \<open>calculate_hash\<close> calls it.
  \<open>hashlib_new\<close> is \<open>None\<close> for a name the backend does not know (\<open>hashlib.new\<close> raises
  \<open>ValueError\<close>). \<open>json_load\<close> stands for \<open>open(path, 'r')\<close> followed by \<open>json.load\<close>:
  it decodes the bytes of the file and parses the text, and may raise;
  \<open>json_dump\<close> is the text \<open>json.dump(data, f, indent=4)\<close> writes.
\<close>

record 's hasher =
  hasher_init :: 's
  hasher_update :: "'s \<Rightarrow> string \<Rightarrow> 's"
  hasher_digest :: "'s \<Rightarrow> string"
  hasher_xof :: bool

record 's pylib =
  hashlib_new :: "string \<Rightarrow> 's hasher option"
  json_load :: "string \<Rightarrow> exn + json"
  json_dump :: "json \<Rightarrow> string"

text \<open>\<open>bytes.hex()\<close>: two lowercase hexadecimal digits for each byte.\<close>

definition hex_digit :: "nat \<Rightarrow> char" where
  "hex_digit n = ''0123456789abcdef'' ! n"

definition hex_byte :: "char \<Rightarrow> string" where
  "hex_byte c = [hex_digit ((of_char c :: nat) div 16), hex_digit ((of_char c :: nat) mod 16)]"

definition bytes_hex :: "string \<Rightarrow> string" where
  "bytes_hex bs = concat (map hex_byte bs)"

text \<open>\<open>hasher.hexdigest()\<close>, called with no argument.\<close>

definition hexdigest :: "'s hasher \<Rightarrow> 's \<Rightarrow> exn + string" where
  "hexdigest h s =
     (if hasher_xof h
      then Inl (TypeError ''hexdigest() missing required argument 'length' (pos 1)'')
      else Inr (bytes_hex (hasher_digest h s)))"

section \<open>Dictionaries and lists of the provenance document\<close>

fun dict_set :: "string \<Rightarrow> json \<Rightarrow> (string \<times> json) list \<Rightarrow> (string \<times> json) list" where
  "dict_set k v [] = [(k, v)]"
| "dict_set k v ((k', v') # d) = (if k' = k then (k, v) # d else (k', v') # dict_set k v d)"

text \<open>\<open>obj[key]\<close>, \<open>obj[key] = value\<close> and \<open>obj.append(x)\<close> on a value of any shape.\<close>

fun getitem :: "json \<Rightarrow> string \<Rightarrow> exn + json" where
  "getitem (JObj d) k = (case map_of d k of Some v \<Rightarrow> Inr v | None \<Rightarrow> Inl (KeyError k))"
| "getitem (JArr xs) k = Inl (TypeError ''list indices must be integers or slices, not str'')"
| "getitem (JStr s) k = Inl (TypeError ''string indices must be integers'')"
| "getitem v k = Inl (TypeError ''object is not subscriptable'')"

fun setitem :: "json \<Rightarrow> string \<Rightarrow> json \<Rightarrow> exn + json" where
  "setitem (JObj d) k v = Inr (JObj (dict_set k v d))"
| "setitem (JArr xs) k v = Inl (TypeError ''list indices must be integers or slices, not str'')"
| "setitem x k v = Inl (TypeError ''object does not support item assignment'')"

fun append :: "json \<Rightarrow> json \<Rightarrow> exn + json" where
  "append (JArr xs) x = Inr (JArr (xs @ [x]))"
| "append v x = Inl (AttributeError ''object has no attribute append'')"

section \<open>ProvenanceRecorder\<close>

record recorder =
  artifact_path :: string
  provenance_file :: string
  provenance_data :: json

text \<open>
  A method returns the log records it emitted and either the exception it raised or its
  result. The clock reading \<open>now\<close> is \<open>datetime.utcnow().isoformat()\<close> at the call.
\<close>

definition fresh_data :: "string \<Rightarrow> string \<Rightarrow> json" where
  "fresh_data artifact now =
     JObj [(''artifact'', JStr artifact),
           (''created_at'', JStr (now @ ''Z'')),
           (''build_steps'', JArr []),
           (''artifact_hash'', JNull)]"

definition load_existing_provenance ::
  "'s pylib \<Rightarrow> filesystem \<Rightarrow> recorder \<Rightarrow> log_record list \<times> (exn + recorder)" where
  "load_existing_provenance L fs r =
     (if os_path_exists fs (provenance_file r) then
        (case (case open_read fs (provenance_file r) of
                 Inl e \<Rightarrow> Inl e
               | Inr bs \<Rightarrow> json_load L bs) of
           Inr v \<Rightarrow> ([], Inr (r\<lparr>provenance_data := v\<rparr>))
         | Inl e \<Rightarrow>
             (if is_FileNotFoundError e \<or> is_JSONDecodeError e
              then ([(WARNING, ''Could not load existing provenance file: '' @ str_exn e
                               @ ''. Starting fresh.'')], Inr r)
              else ([], Inl e)))
      else ([], Inr r))"

definition init_recorder ::
  "'s pylib \<Rightarrow> filesystem \<Rightarrow> string \<Rightarrow> string \<Rightarrow> string \<Rightarrow> log_record list \<times> (exn + recorder)" where
  "init_recorder L fs now a_path p_file =
     load_existing_provenance L fs
       \<lparr>artifact_path = a_path, provenance_file = p_file,
        provenance_data = fresh_data a_path now\<rparr>"

definition truthy :: "string option \<Rightarrow> bool" where
  "truthy x = (case x of None \<Rightarrow> False | Some s \<Rightarrow> s \<noteq> [])"

definition make_step :: "string \<Rightarrow> string \<Rightarrow> string option \<Rightarrow> json" where
  "make_step now command version =
     JObj ([(''command'', JStr command), (''executed_at'', JStr (now @ ''Z''))]
           @ (if truthy version then [(''version'', JStr (the version))] else []))"

definition add_build_step ::
  "string \<Rightarrow> recorder \<Rightarrow> string \<Rightarrow> string option \<Rightarrow> log_record list \<times> (exn + recorder)" where
  "add_build_step now r command version =
     (case (case getitem (provenance_data r) ''build_steps'' of
              Inl e \<Rightarrow> Inl e
            | Inr steps \<Rightarrow>
                (case append steps (make_step now command version) of
                   Inl e \<Rightarrow> Inl e
                 | Inr steps' \<Rightarrow> setitem (provenance_data r) ''build_steps'' steps')) of
        Inr d \<Rightarrow> ([(INFO, ''Added build step: '' @ command)], Inr (r\<lparr>provenance_data := d\<rparr>))
      | Inl e \<Rightarrow> ([(ERROR, ''Error adding build step: '' @ str_exn e)], Inl e))"

text \<open>The loop \<open>while chunk := f.read(4096): hasher.update(chunk)\<close> on the unread bytes.\<close>

function hash_loop :: "'s hasher \<Rightarrow> 's \<Rightarrow> string \<Rightarrow> 's" where
  "hash_loop h s rest =
     (if take 4096 rest = [] then s
      else hash_loop h (hasher_update h s (take 4096 rest)) (drop 4096 rest))"
  by pat_completeness auto
termination
  by (relation "measure (\<lambda>(h, s, rest). length rest)") auto

declare hash_loop.simps [simp del]

definition calculate_hash ::
  "'s pylib \<Rightarrow> filesystem \<Rightarrow> recorder \<Rightarrow> string \<Rightarrow> log_record list \<times> (exn + recorder)" where
  "calculate_hash L fs r algorithm =
     (case (if \<not> os_path_exists fs (artifact_path r)
            then Inl (FileNotFoundError (''Artifact not found: '' @ artifact_path r))
            else (case hashlib_new L algorithm of
                    None \<Rightarrow> Inl (ValueError (''unsupported hash type '' @ algorithm))
                  | Some h \<Rightarrow>
                      (case open_read fs (artifact_path r) of
                         Inl e \<Rightarrow> Inl e
                       | Inr bs \<Rightarrow>
                           (case hexdigest h (hash_loop h (hasher_init h) bs) of
                              Inl e \<Rightarrow> Inl e
                            | Inr hx \<Rightarrow>
                                (case setitem (provenance_data r) ''artifact_hash''
                                        (JObj [(''algorithm'', JStr algorithm),
                                               (''hash'', JStr hx)]) of
                                   Inl e \<Rightarrow> Inl e
                                 | Inr d \<Rightarrow> Inr (d, hx)))))) of
        Inr (d, hx) \<Rightarrow>
          ([(INFO, ''Calculated '' @ algorithm @ '' hash: '' @ hx)], Inr (r\<lparr>provenance_data := d\<rparr>))
      | Inl e \<Rightarrow>
          (if is_FileNotFoundError e
           then ([(ERROR, ''File not found error: '' @ str_exn e)], Inl e)
           else ([(ERROR, ''Error calculating hash: '' @ str_exn e)], Inl e)))"

definition save_provenance ::
  "'s pylib \<Rightarrow> filesystem \<Rightarrow> recorder \<Rightarrow> log_record list \<times> (exn + filesystem)" where
  "save_provenance L fs r =
     (case open_write fs (provenance_file r) (json_dump L (provenance_data r)) of
        Inr fs' \<Rightarrow> ([(INFO, ''Provenance data saved to: '' @ provenance_file r)], Inr fs')
      | Inl e \<Rightarrow> ([(ERROR, ''Error saving provenance data: '' @ str_exn e)], Inl e))"

section \<open>The command line\<close>

record args =
  args_artifact_path :: string
  args_provenance_file :: string
  args_command :: "string option"
  args_version :: "string option"
  args_hash_algorithm :: string

text \<open>
  The body of the \<open>try\<close> block of \<open>main\<close>: the log so far and either the exception that
  left the block or the file system after \<open>save_provenance\<close>. \<open>t0\<close> and \<open>t1\<close> are the clock
  readings in \<open>__init__\<close> and in \<open>add_build_step\<close>.
\<close>

definition main_body ::
  "'s pylib \<Rightarrow> string \<Rightarrow> string \<Rightarrow> args \<Rightarrow> filesystem \<Rightarrow> log_record list \<times> (exn + filesystem)" where
  "main_body L t0 t1 a fs =
     (if \<not> os_path_exists fs (args_artifact_path a)
      then ([], Inl (FileNotFoundError (''Artifact not found: '' @ args_artifact_path a)))
      else
        (case init_recorder L fs t0 (args_artifact_path a) (args_provenance_file a) of
           (l0, Inl e) \<Rightarrow> (l0, Inl e)
         | (l0, Inr r0) \<Rightarrow>
             (case (if truthy (args_command a)
                    then add_build_step t1 r0 (the (args_command a)) (args_version a)
                    else ([], Inr r0)) of
                (l1, Inl e) \<Rightarrow> (l0 @ l1, Inl e)
              | (l1, Inr r1) \<Rightarrow>
                  (case calculate_hash L fs r1 (args_hash_algorithm a) of
                     (l2, Inl e) \<Rightarrow> (l0 @ l1 @ l2, Inl e)
                   | (l2, Inr r2) \<Rightarrow>
                       (case save_provenance L fs r2 of
                          (l3, res) \<Rightarrow> (l0 @ l1 @ l2 @ l3, res))))))"

text \<open>\<open>main\<close>: the exit status, the file system afterwards, and the log.\<close>

definition main :: "'s pylib \<Rightarrow> string \<Rightarrow> string \<Rightarrow> args \<Rightarrow> filesystem \<Rightarrow> nat \<times> filesystem \<times> log_record list" where
  "main L t0 t1 a fs =
     (case main_body L t0 t1 a fs of
        (l, Inr fs') \<Rightarrow> (0, fs', l)
      | (l, Inl e) \<Rightarrow>
          (if is_FileNotFoundError e
           then (1, fs, l @ [(ERROR, ''File not found: '' @ str_exn e)])
           else (1, fs, l @ [(ERROR, ''An error occurred: '' @ str_exn e)])))"

section \<open>A small library for executable examples\<close>

text \<open>
  The theorems below hold for every library \<open>L\<close>. To run the program on concrete inputs
  this section gives one: two streaming checksums in place of the digests of \<open>hashlib\<close>
  (the sum of the bytes, as one or two digest bytes), a third checksum \<open>sumx\<close> whose digest
  has no fixed length, in place of \<open>shake_128\<close>, a strict UTF-8 check for the text
  decoding that \<open>open(path, 'r')\<close> performs, and a JSON reader and writer.
\<close>

definition sum_hasher :: "nat \<Rightarrow> nat hasher" where
  "sum_hasher width =
     \<lparr>hasher_init = 0,
      hasher_update = (\<lambda>s bs. s + sum_list (map of_char bs)),
      hasher_digest = (\<lambda>s. map (\<lambda>i. char_of (s div 256 ^ i)) (rev [0..<width])),
      hasher_xof = False\<rparr>"

definition demo_hashlib_new :: "string \<Rightarrow> nat hasher option" where
  "demo_hashlib_new name =
     (if name = ''sum8'' then Some (sum_hasher 1)
      else if name = ''sum16'' then Some (sum_hasher 2)
      else if name = ''sumx'' then Some ((sum_hasher 2)\<lparr>hasher_xof := True\<rparr>)
      else None)"

fun utf8_valid :: "nat list \<Rightarrow> bool" where
  "utf8_valid [] = True"
| "utf8_valid (a # bs) =
     (if a < 0x80 then utf8_valid bs
      else if 0xC2 \<le> a \<and> a \<le> 0xDF then
        (case bs of
           b # r \<Rightarrow> 0x80 \<le> b \<and> b \<le> 0xBF \<and> utf8_valid r
         | _ \<Rightarrow> False)
      else if 0xE0 \<le> a \<and> a \<le> 0xEF then
        (case bs of
           b # c # r \<Rightarrow>
             (if a = 0xE0 then 0xA0 else 0x80) \<le> b \<and> b \<le> (if a = 0xED then 0x9F else 0xBF)
             \<and> 0x80 \<le> c \<and> c \<le> 0xBF \<and> utf8_valid r
         | _ \<Rightarrow> False)
      else if 0xF0 \<le> a \<and> a \<le> 0xF4 then
        (case bs of
           b # c # d # r \<Rightarrow>
             (if a = 0xF0 then 0x90 else 0x80) \<le> b \<and> b \<le> (if a = 0xF4 then 0x8F else 0xBF)
             \<and> 0x80 \<le> c \<and> c \<le> 0xBF \<and> 0x80 \<le> d \<and> d \<le> 0xBF \<and> utf8_valid r
         | _ \<Rightarrow> False)
      else False)"


text \<open>
  Reading and writing JSON text. The reader covers objects, arrays, strings with their
  escapes, integers and the three literals; it rejects fractional numbers and escaped
  surrogates, which Python accepts, it reads an integer of any length, where Python refuses
  one of more than 4300 digits, and its exception texts are shortened. The writer follows
  the layout of \<open>indent=4\<close>; it writes a character beyond ASCII as it is, where Python
  writes a \<open>\\u\<close> escape. The examples below use this library only on inputs where it
  agrees with Python: short ASCII documents of strings, lists and dictionaries, the word
  \<open>null\<close>, text that is not JSON, and one byte that is not UTF-8.
\<close>

definition is_ws :: "char \<Rightarrow> bool" where
  "is_ws c = (c = CHR '' '' \<or> c = CHR 0x0A \<or> c = CHR 0x0D \<or> c = CHR 0x09)"

definition skip_ws :: "string \<Rightarrow> string" where
  "skip_ws s = dropWhile is_ws s"

definition is_digit :: "char \<Rightarrow> bool" where
  "is_digit c = (48 \<le> (of_char c :: nat) \<and> (of_char c :: nat) \<le> 57)"

definition digit_val :: "char \<Rightarrow> nat" where
  "digit_val c = of_char c - 48"

definition hex_val :: "char \<Rightarrow> nat option" where
  "hex_val c =
     (let n = (of_char c :: nat)
      in if 48 \<le> n \<and> n \<le> 57 then Some (n - 48)
         else if 97 \<le> n \<and> n \<le> 102 then Some (n - 87)
         else if 65 \<le> n \<and> n \<le> 70 then Some (n - 55)
         else None)"

fun hex4 :: "string \<Rightarrow> nat option" where
  "hex4 (a # b # c # d # r) =
     (case (hex_val a, hex_val b, hex_val c, hex_val d) of
        (Some w, Some x, Some y, Some z) \<Rightarrow> Some (((w * 16 + x) * 16 + y) * 16 + z)
      | _ \<Rightarrow> None)"
| "hex4 s = None"

definition utf8_encode :: "nat \<Rightarrow> string option" where
  "utf8_encode cp =
     (if cp < 0x80 then Some [char_of cp]
      else if cp < 0x800 then Some [char_of (0xC0 + cp div 64), char_of (0x80 + cp mod 64)]
      else if 0xD800 \<le> cp \<and> cp \<le> 0xDFFF then None
      else Some [char_of (0xE0 + cp div 4096), char_of (0x80 + cp div 64 mod 64),
                 char_of (0x80 + cp mod 64)])"

fun parse_chars :: "nat \<Rightarrow> string \<Rightarrow> (string \<times> string) option" where
  "parse_chars 0 s = None"
| "parse_chars (Suc n) [] = None"
| "parse_chars (Suc n) (c # cs) =
     (if c = CHR 0x22 then Some ([], cs)
      else if c = CHR 0x5C then
        (case cs of
           [] \<Rightarrow> None
         | e # r \<Rightarrow>
             (if e = CHR ''u'' then
                (case hex4 r of
                   None \<Rightarrow> None
                 | Some cp \<Rightarrow>
                     (case (utf8_encode cp, parse_chars n (drop 4 r)) of
                        (Some u, Some (t, rest)) \<Rightarrow> Some (u @ t, rest)
                      | _ \<Rightarrow> None))
              else
                (case (if e = CHR 0x22 \<or> e = CHR 0x5C \<or> e = CHR ''/'' then Some e
                       else if e = CHR ''b'' then Some (CHR 0x08)
                       else if e = CHR ''f'' then Some (CHR 0x0C)
                       else if e = CHR ''n'' then Some (CHR 0x0A)
                       else if e = CHR ''r'' then Some (CHR 0x0D)
                       else if e = CHR ''t'' then Some (CHR 0x09)
                       else None,
                       parse_chars n r) of
                   (Some x, Some (t, rest)) \<Rightarrow> Some (x # t, rest)
                 | _ \<Rightarrow> None)))
      else if (of_char c :: nat) < 0x20 then None
      else (case parse_chars n cs of
              Some (t, rest) \<Rightarrow> Some (c # t, rest)
            | None \<Rightarrow> None))"

definition parse_int :: "string \<Rightarrow> (json \<times> string) option" where
  "parse_int s =
     (let neg = (take 1 s = ''-'');
          body = (if neg then drop 1 s else s);
          ds = takeWhile is_digit body;
          rest = dropWhile is_digit body
      in if ds = [] \<or> (length ds > 1 \<and> hd ds = CHR ''0'')
            \<or> take 1 rest = ''.'' \<or> take 1 rest = ''e'' \<or> take 1 rest = ''E''
         then None
         else Some (JNum ((if neg then -1 else 1)
                          * int (foldl (\<lambda>a c. 10 * a + digit_val c) 0 ds)), rest))"

fun parse_value :: "nat \<Rightarrow> string \<Rightarrow> (json \<times> string) option"
  and parse_items :: "nat \<Rightarrow> string \<Rightarrow> (json list \<times> string) option"
  and parse_members :: "nat \<Rightarrow> string \<Rightarrow> ((string \<times> json) list \<times> string) option" where
  "parse_value 0 s = None"
| "parse_value (Suc n) s =
     (case skip_ws s of
        [] \<Rightarrow> None
      | c # cs \<Rightarrow>
          (if c = CHR ''{'' then
             (if take 1 (skip_ws cs) = ''}'' then Some (JObj [], drop 1 (skip_ws cs))
              else (case parse_members n cs of
                      Some (ms, rest) \<Rightarrow> Some (JObj (foldl (\<lambda>d (k, v). dict_set k v d) [] ms), rest)
                    | None \<Rightarrow> None))
           else if c = CHR ''['' then
             (if take 1 (skip_ws cs) = '']'' then Some (JArr [], drop 1 (skip_ws cs))
              else (case parse_items n cs of
                      Some (vs, rest) \<Rightarrow> Some (JArr vs, rest)
                    | None \<Rightarrow> None))
           else if c = CHR 0x22 then
             (case parse_chars (length cs) cs of
                Some (t, rest) \<Rightarrow> Some (JStr t, rest)
              | None \<Rightarrow> None)
           else if take 4 (c # cs) = ''null'' then Some (JNull, drop 3 cs)
           else if take 4 (c # cs) = ''true'' then Some (JBool True, drop 3 cs)
           else if take 5 (c # cs) = ''false'' then Some (JBool False, drop 4 cs)
           else parse_int (c # cs)))"
| "parse_items 0 s = None"
| "parse_items (Suc n) s =
     (case parse_value n s of
        None \<Rightarrow> None
      | Some (v, r) \<Rightarrow>
          (case skip_ws r of
             [] \<Rightarrow> None
           | c # r' \<Rightarrow>
               (if c = CHR '','' then
                  (case parse_items n r' of
                     Some (vs, rest) \<Rightarrow> Some (v # vs, rest)
                   | None \<Rightarrow> None)
                else if c = CHR '']'' then Some ([v], r')
                else None)))"
| "parse_members 0 s = None"
| "parse_members (Suc n) s =
     (case skip_ws s of
        [] \<Rightarrow> None
      | q # s1 \<Rightarrow>
          (if q \<noteq> CHR 0x22 then None
           else (case parse_chars (length s1) s1 of
                   None \<Rightarrow> None
                 | Some (k, s2) \<Rightarrow>
                     (if take 1 (skip_ws s2) \<noteq> '':'' then None
                      else (case parse_value n (drop 1 (skip_ws s2)) of
                              None \<Rightarrow> None
                            | Some (v, r) \<Rightarrow>
                                (case skip_ws r of
                                   [] \<Rightarrow> None
                                 | c # r' \<Rightarrow>
                                     (if c = CHR '','' then
                                        (case parse_members n r' of
                                           Some (ms, rest) \<Rightarrow> Some ((k, v) # ms, rest)
                                         | None \<Rightarrow> None)
                                      else if c = CHR ''}'' then Some ([(k, v)], r')
                                      else None)))))))"

definition json_loads :: "string \<Rightarrow> exn + json" where
  "json_loads s =
     (case parse_value (Suc (length s)) s of
        None \<Rightarrow> Inl (JSONDecodeError ''Expecting value'')
      | Some (v, rest) \<Rightarrow>
          (if skip_ws rest = [] then Inr v else Inl (JSONDecodeError ''Extra data'')))"

definition demo_json_load :: "string \<Rightarrow> exn + json" where
  "demo_json_load bs =
     (if utf8_valid (map of_char bs) then json_loads bs
      else Inl (UnicodeDecodeError ''invalid start byte''))"

definition escape_char :: "char \<Rightarrow> string" where
  "escape_char c =
     (if c = CHR 0x22 then [CHR 0x5C, CHR 0x22]
      else if c = CHR 0x5C then [CHR 0x5C, CHR 0x5C]
      else if c = CHR 0x0A then [CHR 0x5C, CHR ''n'']
      else if c = CHR 0x0D then [CHR 0x5C, CHR ''r'']
      else if c = CHR 0x09 then [CHR 0x5C, CHR ''t'']
      else if c = CHR 0x08 then [CHR 0x5C, CHR ''b'']
      else if c = CHR 0x0C then [CHR 0x5C, CHR ''f'']
      else if (of_char c :: nat) < 0x20 then [CHR 0x5C, CHR ''u'', CHR ''0'', CHR ''0''] @ hex_byte c
      else [c])"

definition quote :: "string \<Rightarrow> string" where
  "quote s = [CHR 0x22] @ concat (map escape_char s) @ [CHR 0x22]"

function show_nat :: "nat \<Rightarrow> string" where
  "show_nat n = (if n < 10 then [char_of (48 + n)] else show_nat (n div 10) @ [char_of (48 + n mod 10)])"
  by pat_completeness auto
termination
  by (relation "measure id") auto

declare show_nat.simps [simp del]

definition show_int :: "int \<Rightarrow> string" where
  "show_int i = (if i < 0 then ''-'' @ show_nat (nat (- i)) else show_nat (nat i))"

definition indent :: "nat \<Rightarrow> string" where
  "indent n = CHR 0x0A # replicate (4 * n) CHR '' ''"

fun join :: "string \<Rightarrow> string list \<Rightarrow> string" where
  "join sep [] = []"
| "join sep [x] = x"
| "join sep (x # y # xs) = x @ sep @ join sep (y # xs)"

primrec dumps :: "json \<Rightarrow> nat \<Rightarrow> string" where
  "dumps JNull n = ''null''"
| "dumps (JBool b) n = (if b then ''true'' else ''false'')"
| "dumps (JNum i) n = show_int i"
| "dumps (JStr s) n = quote s"
| "dumps (JArr xs) n =
     (if xs = [] then ''[]''
      else ''['' @ indent (Suc n) @ join ('','' @ indent (Suc n)) (map (\<lambda>x. dumps x (Suc n)) xs)
           @ indent n @ '']'')"
| "dumps (JObj d) n =
     (if d = [] then ''{}''
      else ''{'' @ indent (Suc n)
           @ join ('','' @ indent (Suc n))
               (map (\<lambda>kv. quote (fst kv) @ '': '' @ snd kv) (map (map_prod id (\<lambda>v. dumps v (Suc n))) d))
           @ indent n @ ''}'')"

definition demo_lib :: "nat pylib" where
  "demo_lib = \<lparr>hashlib_new = demo_hashlib_new, json_load = demo_json_load,
              json_dump = (\<lambda>v. dumps v 0)\<rparr>"

section \<open>Example inputs\<close>

definition demo_args :: args where
  "demo_args =
     \<lparr>args_artifact_path = ''foo.bin'', args_provenance_file = ''provenance.json'',
      args_command = Some ''gcc -o foo foo.c'', args_version = Some ''gcc 11.2'',
      args_hash_algorithm = ''sum16''\<rparr>"

text \<open>A file system with an old provenance file and a directory, but no artifact.\<close>

definition old_fs :: filesystem where
  "old_fs =
     \<lparr>entries = [''provenance.json'' \<mapsto> File ''{}'', ''build'' \<mapsto> Dir],
      read_err = Map.empty, write_err = Map.empty\<rparr>"

text \<open>A file system holding only the artifact, with the bytes of \<open>hello\<close>.\<close>

definition hello_fs :: filesystem where
  "hello_fs =
     \<lparr>entries = [''foo.bin'' \<mapsto> File ''hello''], read_err = Map.empty, write_err = Map.empty\<rparr>"

definition crc_args :: args where
  "crc_args = demo_args\<lparr>args_hash_algorithm := ''crc32''\<rparr>"

text \<open>A recorder as \<open>__init__\<close> leaves it when there is no provenance file.\<close>

definition demo_recorder :: recorder where
  "demo_recorder =
     \<lparr>artifact_path = ''foo.bin'', provenance_file = ''provenance.json'',
      provenance_data = fresh_data ''foo.bin'' ''2024-05-01T10:00:00''\<rparr>"

text \<open>\<open>key in obj\<close> for an object; a sequence of \<open>add_build_step\<close> calls made one after the other,
  stopping at the first exception; the list under \<open>build_steps\<close>.\<close>

definition has_key :: "json \<Rightarrow> string \<Rightarrow> bool" where
  "has_key v k = (case v of JObj d \<Rightarrow> k \<in> fst ` set d | _ \<Rightarrow> False)"

fun add_build_steps :: "recorder \<Rightarrow> (string \<times> string \<times> string option) list \<Rightarrow> exn + recorder" where
  "add_build_steps r [] = Inr r"
| "add_build_steps r ((now, command, version) # calls) =
     (case add_build_step now r command version of
        (l, Inl e) \<Rightarrow> Inl e
      | (l, Inr r') \<Rightarrow> add_build_steps r' calls)"

definition build_steps_of :: "recorder \<Rightarrow> json list" where
  "build_steps_of r = (case getitem (provenance_data r) ''build_steps'' of Inr (JArr xs) \<Rightarrow> xs | _ \<Rightarrow> [])"

text \<open>A recorder loaded from a provenance file that already holds one step.\<close>

definition one_step_recorder :: recorder where
  "one_step_recorder =
     \<lparr>artifact_path = ''foo.bin'', provenance_file = ''provenance.json'',
      provenance_data =
        JObj [(''artifact'', JStr ''foo.bin''), (''created_at'', JStr ''2024-04-30T09:00:00Z''),
              (''build_steps'', JArr [JObj [(''command'', JStr ''gcc -c foo.c''),
                                            (''executed_at'', JStr ''2024-04-30T09:00:01Z'')]]),
              (''artifact_hash'', JNull)]\<rparr>"

text \<open>The step that one call of \<open>add_build_step\<close> appends.\<close>

definition step_of :: "string \<times> string \<times> string option \<Rightarrow> json" where
  "step_of call = (case call of (now, command, version) \<Rightarrow> make_step now command version)"

text \<open>Provenance files that cannot be loaded: one byte that is not UTF-8, and text that is
  not JSON.\<close>

definition binary_fs :: filesystem where
  "binary_fs =
     \<lparr>entries = [''foo.bin'' \<mapsto> File ''hello'', ''provenance.json'' \<mapsto> File [CHR 0xFF]],
      read_err = Map.empty, write_err = Map.empty\<rparr>"

definition garbage_fs :: filesystem where
  "garbage_fs =
     \<lparr>entries = [''foo.bin'' \<mapsto> File ''hello'', ''provenance.json'' \<mapsto> File ''not json''],
      read_err = Map.empty, write_err = Map.empty\<rparr>"

text \<open>A recorder after a first complete run, the text it saves, and a file system for a
  second run; \<open>bar.bin\<close> is another artifact.\<close>

definition full_recorder :: recorder where
  "full_recorder =
     \<lparr>artifact_path = ''foo.bin'', provenance_file = ''provenance.json'',
      provenance_data =
        JObj [(''artifact'', JStr ''foo.bin''), (''created_at'', JStr ''2024-05-01T10:00:00Z''),
              (''build_steps'',
                 JArr [JObj [(''command'', JStr ''gcc -o foo foo.c''),
                             (''executed_at'', JStr ''2024-05-01T10:00:01Z''),
                             (''version'', JStr ''gcc 11.2'')]]),
              (''artifact_hash'', JObj [(''algorithm'', JStr ''sum16''), (''hash'', JStr ''0214'')])]\<rparr>"

definition saved_text :: string where
  "saved_text = json_dump demo_lib (provenance_data full_recorder)"

definition second_fs :: filesystem where
  "second_fs =
     \<lparr>entries = [''foo.bin'' \<mapsto> File ''hello'', ''bar.bin'' \<mapsto> File ''world'',
                 ''provenance.json'' \<mapsto> File saved_text],
      read_err = Map.empty, write_err = Map.empty\<rparr>"

definition second_args :: args where
  "second_args =
     \<lparr>args_artifact_path = ''foo.bin'', args_provenance_file = ''provenance.json'',
      args_command = Some ''strip foo'', args_version = None, args_hash_algorithm = ''sum16''\<rparr>"

definition other_args :: args where
  "other_args =
     \<lparr>args_artifact_path = ''bar.bin'', args_provenance_file = ''provenance.json'',
      args_command = None, args_version = None, args_hash_algorithm = ''sum16''\<rparr>"

text \<open>An algorithm with no fixed digest length, and a provenance file holding \<open>null\<close>.\<close>

definition sumx_args :: args where
  "sumx_args =
     \<lparr>args_artifact_path = ''foo.bin'', args_provenance_file = ''provenance.json'',
      args_command = None, args_version = None, args_hash_algorithm = ''sumx''\<rparr>"

definition null_fs :: filesystem where
  "null_fs =
     \<lparr>entries = [''foo.bin'' \<mapsto> File ''hello'', ''provenance.json'' \<mapsto> File ''null''],
      read_err = Map.empty, write_err = Map.empty\<rparr>"

definition null_recorder :: recorder where
  "null_recorder =
     \<lparr>artifact_path = ''foo.bin'', provenance_file = ''provenance.json'',
      provenance_data = JNull\<rparr>"

section \<open>What the methods keep and need\<close>

lemma init_recorder_paths:
  "init_recorder L fs now ap pf = (l, Inr r) \<Longrightarrow> artifact_path r = ap \<and> provenance_file r = pf"
  by (auto simp: init_recorder_def load_existing_provenance_def split: if_splits sum.splits)

lemma add_build_step_paths:
  "add_build_step now r c v = (l, Inr r') \<Longrightarrow>
     artifact_path r' = artifact_path r \<and> provenance_file r' = provenance_file r"
  by (auto simp: add_build_step_def split: sum.splits)

lemma calculate_hash_reads_file:
  "calculate_hash L fs r alg = (l, Inr r') \<Longrightarrow> \<exists>bs. entries fs (artifact_path r) = Some (File bs)"
  by (auto simp: calculate_hash_def open_read_def
      split: if_splits sum.splits option.splits node.splits)

lemma main_body_reads_artifact:
  "main_body L t0 t1 a fs = (l, Inr fs') \<Longrightarrow> \<exists>bs. entries fs (args_artifact_path a) = Some (File bs)"
  unfolding main_body_def
  by (auto split: if_splits sum.splits prod.splits
       dest!: init_recorder_paths add_build_step_paths calculate_hash_reads_file)

lemma open_read_exists: "open_read fs p = Inr bs \<Longrightarrow> os_path_exists fs p"
  by (auto simp: open_read_def os_path_exists_def split: option.splits)

lemma init_recorder_absent:
  "entries fs pf = None \<Longrightarrow>
   init_recorder L fs now ap pf
     = ([], Inr \<lparr>artifact_path = ap, provenance_file = pf, provenance_data = fresh_data ap now\<rparr>)"
  by (simp add: init_recorder_def load_existing_provenance_def os_path_exists_def)

lemma init_recorder_parse_failure:
  "open_read fs pf = Inr bs \<Longrightarrow> json_load L bs = Inl (JSONDecodeError m) \<Longrightarrow>
   init_recorder L fs now ap pf
     = ([(WARNING, ''Could not load existing provenance file: '' @ m @ ''. Starting fresh.'')],
        Inr \<lparr>artifact_path = ap, provenance_file = pf, provenance_data = fresh_data ap now\<rparr>)"
  using open_read_exists[of fs pf bs]
  by (simp add: init_recorder_def load_existing_provenance_def)

lemma init_recorder_loaded:
  "open_read fs pf = Inr bs \<Longrightarrow> json_load L bs = Inr v \<Longrightarrow>
   init_recorder L fs now ap pf
     = ([], Inr \<lparr>artifact_path = ap, provenance_file = pf, provenance_data = v\<rparr>)"
  using open_read_exists[of fs pf bs]
  by (simp add: init_recorder_def load_existing_provenance_def)

lemma init_recorder_other_failure:
  "open_read fs pf = Inr bs \<Longrightarrow> json_load L bs = Inl e \<Longrightarrow>
   \<not> is_FileNotFoundError e \<Longrightarrow> \<not> is_JSONDecodeError e \<Longrightarrow>
   init_recorder L fs now ap pf = ([], Inl e)"
  using open_read_exists[of fs pf bs]
  by (simp add: init_recorder_def load_existing_provenance_def)

section \<open>A missing artifact\<close>

text \<open>
  C2. When the artifact path does not name an existing file (it names nothing, or a
  directory), \<open>main\<close> exits with status 1 and the file system is what it was before the
  run: no provenance file is created, and an existing one keeps its contents.
\<close>

theorem missing_artifact_exits_1:
  assumes "\<forall>bs. entries fs (args_artifact_path a) \<noteq> Some (File bs)"
  shows "fst (main L t0 t1 a fs) = 1 \<and> fst (snd (main L t0 t1 a fs)) = fs"
proof (cases "main_body L t0 t1 a fs")
  case (Pair l res)
  show ?thesis
  proof (cases res)
    case (Inl e)
    with Pair show ?thesis by (simp add: main_def)
  next
    case (Inr fs')
    with Pair main_body_reads_artifact[of L t0 t1 a fs l fs'] assms show ?thesis by auto
  qed
qed

theorem missing_artifact_exits_1_witness:
  "(\<forall>bs. entries old_fs (args_artifact_path demo_args) \<noteq> Some (File bs))
   \<and> fst (main demo_lib ''2024-05-01T10:00:00'' ''2024-05-01T10:00:01'' demo_args old_fs) = 1
   \<and> entries (fst (snd (main demo_lib ''2024-05-01T10:00:00'' ''2024-05-01T10:00:01''
                           demo_args old_fs))) ''provenance.json'' = Some (File ''{}'')"
proof -
  have h: "\<forall>bs. entries old_fs (args_artifact_path demo_args) \<noteq> Some (File bs)"
    by (simp add: old_fs_def demo_args_def)
  from missing_artifact_exits_1[OF h, of demo_lib "''2024-05-01T10:00:00''" "''2024-05-01T10:00:01''"]
  show ?thesis using h by (simp add: old_fs_def)
qed

section \<open>An algorithm the backend does not know\<close>

lemma calculate_hash_supported:
  "calculate_hash L fs r alg = (l, Inr r') \<Longrightarrow> hashlib_new L alg \<noteq> None"
  by (auto simp: calculate_hash_def split: if_splits sum.splits option.splits)

lemma main_body_supported:
  "main_body L t0 t1 a fs = (l, Inr fs') \<Longrightarrow> hashlib_new L (args_hash_algorithm a) \<noteq> None"
  unfolding main_body_def
  by (auto split: if_splits sum.splits prod.splits dest!: calculate_hash_supported)

lemma calculate_hash_unsupported:
  assumes "hashlib_new L alg = None"
  shows "\<exists>e m. calculate_hash L fs r alg = ([(ERROR, m)], Inl e)"
  using assms by (auto simp: calculate_hash_def)

lemma main_failure:
  assumes "\<And>l fs'. main_body L t0 t1 a fs \<noteq> (l, Inr fs')"
  shows "\<exists>l m. main L t0 t1 a fs = (1, fs, l @ [(ERROR, m)])"
proof (cases "main_body L t0 t1 a fs")
  case (Pair l res)
  with assms obtain e where "res = Inl e" by (cases res) auto
  with Pair show ?thesis by (auto simp: main_def)
qed

text \<open>
  C9. When \<open>hashlib.new\<close> does not know the algorithm name, \<open>calculate_hash\<close> called on
  any recorder logs an error and raises, returning no updated record (so
  \<open>artifact_hash\<close> is not set), and \<open>main\<close> exits with status 1, its last log record an
  error, with the file system unchanged: the provenance file is not saved.
\<close>

theorem unsupported_algorithm_aborts:
  assumes "hashlib_new L (args_hash_algorithm a) = None"
  shows "(\<exists>l m. main L t0 t1 a fs = (1, fs, l @ [(ERROR, m)]))
         \<and> (\<forall>r. \<exists>e m. calculate_hash L fs r (args_hash_algorithm a) = ([(ERROR, m)], Inl e))"
proof
  from assms have "\<And>l fs'. main_body L t0 t1 a fs \<noteq> (l, Inr fs')"
    using main_body_supported by blast
  then show "\<exists>l m. main L t0 t1 a fs = (1, fs, l @ [(ERROR, m)])" by (rule main_failure)
  show "\<forall>r. \<exists>e m. calculate_hash L fs r (args_hash_algorithm a) = ([(ERROR, m)], Inl e)"
    using assms calculate_hash_unsupported by blast
qed

theorem unsupported_algorithm_aborts_witness:
  "hashlib_new demo_lib (args_hash_algorithm crc_args) = None
   \<and> fst (main demo_lib ''2024-05-01T10:00:00'' ''2024-05-01T10:00:01'' crc_args hello_fs) = 1
   \<and> entries (fst (snd (main demo_lib ''2024-05-01T10:00:00'' ''2024-05-01T10:00:01''
                           crc_args hello_fs))) ''provenance.json'' = None"
proof -
  have h: "hashlib_new demo_lib (args_hash_algorithm crc_args) = None"
    by (simp add: demo_lib_def demo_hashlib_new_def crc_args_def demo_args_def)
  from unsupported_algorithm_aborts[OF h, of "''2024-05-01T10:00:00''" "''2024-05-01T10:00:01''" hello_fs]
  obtain l m where "main demo_lib ''2024-05-01T10:00:00'' ''2024-05-01T10:00:01'' crc_args hello_fs
                    = (1, hello_fs, l @ [(ERROR, m)])"
    by blast
  then show ?thesis using h by (simp add: hello_fs_def)
qed

section \<open>Hashing the artifact\<close>

lemma map_of_dict_set: "map_of (dict_set k v d) = (map_of d)(k \<mapsto> v)"
  by (induction d) (auto simp: fun_eq_iff)

lemma hash_loop_whole:
  "(\<forall>s x y. hasher_update h (hasher_update h s x) y = hasher_update h s (x @ y)) \<Longrightarrow>
   (\<forall>s. hasher_update h s [] = s) \<Longrightarrow>
   hash_loop h s bs = hasher_update h s bs"
proof (induction h s bs rule: hash_loop.induct)
  case (1 h s rest)
  show ?case
  proof (cases "take 4096 rest = []")
    case True
    then have "rest = []" by (cases rest) auto
    with 1(3) show ?thesis by (simp add: hash_loop.simps)
  next
    case False
    have "hash_loop h s rest = hash_loop h (hasher_update h s (take 4096 rest)) (drop 4096 rest)"
      using False by (subst hash_loop.simps) simp
    also have "\<dots> = hasher_update h (hasher_update h s (take 4096 rest)) (drop 4096 rest)"
      using 1 False by simp
    also have "\<dots> = hasher_update h s rest" using 1(2) by simp
    finally show ?thesis .
  qed
qed

lemma hex_digit_lower: "n < 16 \<Longrightarrow> hex_digit n \<in> set ''0123456789abcdef''"
  unfolding hex_digit_def by (rule nth_mem) simp

lemma hex_byte_lower: "c \<in> set (hex_byte b) \<Longrightarrow> c \<in> set ''0123456789abcdef''"
proof -
  assume "c \<in> set (hex_byte b)"
  then have "c = hex_digit ((of_char b :: nat) div 16) \<or> c = hex_digit ((of_char b :: nat) mod 16)"
    by (auto simp: hex_byte_def)
  moreover have "(of_char b :: nat) div 16 < 16"
    by (rule less_mult_imp_div_less) (use nat_of_char_less_256[of b] in simp)
  moreover have "(of_char b :: nat) mod 16 < 16" by simp
  ultimately show ?thesis using hex_digit_lower by blast
qed

lemma bytes_hex_lower: "c \<in> set (bytes_hex bs) \<Longrightarrow> c \<in> set ''0123456789abcdef''"
proof -
  assume "c \<in> set (bytes_hex bs)"
  then obtain b where "c \<in> set (hex_byte b)"
    by (auto simp only: bytes_hex_def set_concat set_map)
  then show ?thesis by (rule hex_byte_lower)
qed

lemma hexdigest_fixed: "\<not> hasher_xof h \<Longrightarrow> hexdigest h s = Inr (bytes_hex (hasher_digest h s))"
  by (simp add: hexdigest_def)

lemma hexdigest_Inr:
  "hexdigest h s = Inr hx \<Longrightarrow> \<not> hasher_xof h \<and> hx = bytes_hex (hasher_digest h s)"
  by (auto simp: hexdigest_def split: if_splits)

lemma setitem_Inl: "\<forall>d. v \<noteq> JObj d \<Longrightarrow> \<exists>t. setitem v k x = Inl (TypeError t)"
  by (cases v) auto

lemma calculate_hash_success:
  assumes "open_read fs (artifact_path r) = Inr bs" and "hashlib_new L a = Some h"
    and "hexdigest h (hash_loop h (hasher_init h) bs) = Inr hx"
    and "provenance_data r = JObj d"
  shows "calculate_hash L fs r a =
           ([(INFO, ''Calculated '' @ a @ '' hash: '' @ hx)],
            Inr (r\<lparr>provenance_data :=
                     JObj (dict_set ''artifact_hash''
                             (JObj [(''algorithm'', JStr a), (''hash'', JStr hx)]) d)\<rparr>))"
  using assms open_read_exists[OF assms(1)] by (simp add: calculate_hash_def)

lemma calculate_hash_no_length:
  assumes "open_read fs (artifact_path r) = Inr bs" and "hashlib_new L a = Some h"
    and "hasher_xof h"
  shows "calculate_hash L fs r a =
           ([(ERROR, ''Error calculating hash: hexdigest() missing required argument 'length' (pos 1)'')],
            Inl (TypeError ''hexdigest() missing required argument 'length' (pos 1)''))"
  using assms open_read_exists[OF assms(1)] by (simp add: calculate_hash_def hexdigest_def)

lemma calculate_hash_not_dict:
  assumes "open_read fs (artifact_path r) = Inr bs" and "hashlib_new L a = Some h"
    and "\<forall>d. provenance_data r \<noteq> JObj d"
  shows "\<exists>m t. calculate_hash L fs r a = ([(ERROR, m)], Inl (TypeError t))"
proof (cases "hasher_xof h")
  case True
  with assms(1,2) show ?thesis using calculate_hash_no_length by blast
next
  case False
  then have hx: "hexdigest h (hash_loop h (hasher_init h) bs)
                   = Inr (bytes_hex (hasher_digest h (hash_loop h (hasher_init h) bs)))"
    by (rule hexdigest_fixed)
  from assms(3) obtain t where
    "setitem (provenance_data r) ''artifact_hash''
       (JObj [(''algorithm'', JStr a),
              (''hash'', JStr (bytes_hex (hasher_digest h (hash_loop h (hasher_init h) bs))))])
       = Inl (TypeError t)"
    using setitem_Inl by blast
  then show ?thesis
    using assms(1,2) hx open_read_exists[OF assms(1)] by (simp add: calculate_hash_def)
qed

lemma sum_hasher_streams:
  "\<forall>s x y. hasher_update (sum_hasher w) (hasher_update (sum_hasher w) s x) y
            = hasher_update (sum_hasher w) s (x @ y)"
  by (simp add: sum_hasher_def)

lemma sum_hasher_empty: "\<forall>s. hasher_update (sum_hasher w) s [] = s"
  by (simp add: sum_hasher_def)

lemma sum_hasher_fixed: "\<not> hasher_xof (sum_hasher w)"
  by (simp add: sum_hasher_def)

lemma hello_sum8:
  "bytes_hex (hasher_digest (sum_hasher 1)
     (hasher_update (sum_hasher 1) (hasher_init (sum_hasher 1)) ''hello'')) = ''14''"
  by code_simp

lemma hello_sum16:
  "bytes_hex (hasher_digest (sum_hasher 2)
     (hasher_update (sum_hasher 2) (hasher_init (sum_hasher 2)) ''hello'')) = ''0214''"
  by code_simp

lemma world_sum16:
  "bytes_hex (hasher_digest (sum_hasher 2)
     (hasher_update (sum_hasher 2) (hasher_init (sum_hasher 2)) ''world'')) = ''0228''"
  by code_simp

lemma hello_loop8:
  "hexdigest (sum_hasher 1) (hash_loop (sum_hasher 1) (hasher_init (sum_hasher 1)) ''hello'') = Inr ''14''"
  using hash_loop_whole[OF sum_hasher_streams sum_hasher_empty] hello_sum8
  by (simp add: hexdigest_fixed[OF sum_hasher_fixed])

lemma hello_loop16:
  "hexdigest (sum_hasher 2) (hash_loop (sum_hasher 2) (hasher_init (sum_hasher 2)) ''hello'') = Inr ''0214''"
  using hash_loop_whole[OF sum_hasher_streams sum_hasher_empty] hello_sum16
  by (simp add: hexdigest_fixed[OF sum_hasher_fixed])

lemma world_loop16:
  "hexdigest (sum_hasher 2) (hash_loop (sum_hasher 2) (hasher_init (sum_hasher 2)) ''world'') = Inr ''0228''"
  using hash_loop_whole[OF sum_hasher_streams sum_hasher_empty] world_sum16
  by (simp add: hexdigest_fixed[OF sum_hasher_fixed])

lemma demo_recorder_data:
  "provenance_data demo_recorder
     = JObj [(''artifact'', JStr ''foo.bin''), (''created_at'', JStr ''2024-05-01T10:00:00Z''),
             (''build_steps'', JArr []), (''artifact_hash'', JNull)]"
  by (simp add: demo_recorder_def fresh_data_def)

lemma hello_fs_read: "open_read hello_fs ''foo.bin'' = Inr ''hello''"
  by (simp add: open_read_def hello_fs_def)

lemma demo_hashers:
  "hashlib_new demo_lib ''sum8'' = Some (sum_hasher 1)"
  "hashlib_new demo_lib ''sum16'' = Some (sum_hasher 2)"
  "hashlib_new demo_lib ''sumx'' = Some ((sum_hasher 2)\<lparr>hasher_xof := True\<rparr>)"
  by (simp_all add: demo_lib_def demo_hashlib_new_def)

lemma demo_load_null: "json_load demo_lib ''null'' = Inr JNull"
  by code_simp

text \<open>
  C1, as stated, fails. The backend accepts an algorithm name whose digest has no fixed
  length (\<open>shake_128\<close> and \<open>shake_256\<close> in \<open>hashlib\<close>, \<open>sumx\<close> in the library of the examples);
  \<open>hexdigest()\<close> without a length then raises \<open>TypeError\<close>: on the readable file \<open>foo.bin\<close>
  \<open>calculate_hash\<close> logs an error and raises, \<open>artifact_hash\<close> is not set and \<open>main\<close> exits with
  status 1 without saving. And when the provenance file holds \<open>null\<close>, the loaded document is
  not a dictionary and the assignment to \<open>artifact_hash\<close> raises \<open>TypeError\<close>, with a supported
  algorithm of fixed length.
\<close>

theorem calculate_hash_digest_counterexample:
  "open_read hello_fs (artifact_path demo_recorder) = Inr ''hello''
   \<and> hashlib_new demo_lib ''sumx'' = Some ((sum_hasher 2)\<lparr>hasher_xof := True\<rparr>)
   \<and> calculate_hash demo_lib hello_fs demo_recorder ''sumx''
       = ([(ERROR, ''Error calculating hash: hexdigest() missing required argument 'length' (pos 1)'')],
          Inl (TypeError ''hexdigest() missing required argument 'length' (pos 1)''))
   \<and> main demo_lib ''2024-05-01T10:00:00'' ''2024-05-01T10:00:01'' sumx_args hello_fs
       = (1, hello_fs,
          [(ERROR, ''Error calculating hash: hexdigest() missing required argument 'length' (pos 1)''),
           (ERROR, ''An error occurred: hexdigest() missing required argument 'length' (pos 1)'')])
   \<and> init_recorder demo_lib null_fs ''2024-05-01T10:00:00'' ''foo.bin'' ''provenance.json''
       = ([], Inr null_recorder)
   \<and> open_read null_fs (artifact_path null_recorder) = Inr ''hello''
   \<and> hashlib_new demo_lib ''sum16'' = Some (sum_hasher 2)
   \<and> calculate_hash demo_lib null_fs null_recorder ''sum16''
       = ([(ERROR, ''Error calculating hash: object does not support item assignment'')],
          Inl (TypeError ''object does not support item assignment''))"
proof -
  have rd: "open_read hello_fs (artifact_path demo_recorder) = Inr ''hello''"
    by (simp add: hello_fs_read demo_recorder_def)
  have xof: "hasher_xof ((sum_hasher 2)\<lparr>hasher_xof := True\<rparr>)" by simp
  note c1 = calculate_hash_no_length[OF rd demo_hashers(3) xof]
  have ex: "os_path_exists hello_fs ''foo.bin''"
    by (simp add: os_path_exists_def hello_fs_def)
  have "entries hello_fs ''provenance.json'' = None" by (simp add: hello_fs_def)
  then have init: "init_recorder demo_lib hello_fs ''2024-05-01T10:00:00'' ''foo.bin'' ''provenance.json''
                     = ([], Inr demo_recorder)"
    by (simp add: init_recorder_absent demo_recorder_def)
  have m: "main demo_lib ''2024-05-01T10:00:00'' ''2024-05-01T10:00:01'' sumx_args hello_fs
       = (1, hello_fs,
          [(ERROR, ''Error calculating hash: hexdigest() missing required argument 'length' (pos 1)''),
           (ERROR, ''An error occurred: hexdigest() missing required argument 'length' (pos 1)'')])"
    using ex init c1 by (simp add: main_def main_body_def sumx_args_def truthy_def)
  have prd: "open_read null_fs ''provenance.json'' = Inr ''null''"
    by (simp add: open_read_def null_fs_def)
  have ninit: "init_recorder demo_lib null_fs ''2024-05-01T10:00:00'' ''foo.bin'' ''provenance.json''
       = ([], Inr null_recorder)"
    using init_recorder_loaded[OF prd demo_load_null] by (simp add: null_recorder_def)
  have nrd: "open_read null_fs (artifact_path null_recorder) = Inr ''hello''"
    by (simp add: open_read_def null_fs_def null_recorder_def)
  have nex: "os_path_exists null_fs (artifact_path null_recorder)"
    using nrd by (rule open_read_exists)
  have c2: "calculate_hash demo_lib null_fs null_recorder ''sum16''
       = ([(ERROR, ''Error calculating hash: object does not support item assignment'')],
          Inl (TypeError ''object does not support item assignment''))"
    using nex nrd demo_hashers(2) hello_loop16
    by (simp add: calculate_hash_def null_recorder_def)
  show ?thesis
    by (intro conjI) (rule rd demo_hashers(3) c1 m ninit nrd demo_hashers(2) c2)+
qed

text \<open>
  C1, amended. For a readable artifact and an algorithm name the backend accepts, the loop
  over chunks of 4096 bytes leaves the hasher in the state of one \<open>update\<close> on all the bytes
  (\<open>hashlib\<close> documents that repeated \<open>update\<close> calls equal one call on the concatenation).
  When the digest of the algorithm has a fixed length and the document of the recorder is a
  dictionary, \<open>calculate_hash\<close> returns normally with \<open>artifact_hash\<close> set to the object of
  the algorithm name and the hexadecimal digest of the whole content, every character of
  which is a lowercase hexadecimal digit; the result mentions only the bytes and the
  algorithm. Otherwise \<open>calculate_hash\<close> logs one error and raises \<open>TypeError\<close>.
\<close>

theorem calculate_hash_digest:
  assumes rd: "open_read fs (artifact_path r) = Inr bs"
    and alg: "hashlib_new L a = Some h"
    and app: "\<forall>s x y. hasher_update h (hasher_update h s x) y = hasher_update h s (x @ y)"
    and emp: "\<forall>s. hasher_update h s [] = s"
  shows "hash_loop h (hasher_init h) bs = hasher_update h (hasher_init h) bs
         \<and> (if hasher_xof h \<or> (\<forall>d. provenance_data r \<noteq> JObj d)
            then \<exists>m t. calculate_hash L fs r a = ([(ERROR, m)], Inl (TypeError t))
            else \<exists>l r'. calculate_hash L fs r a = (l, Inr r')
                   \<and> getitem (provenance_data r') ''artifact_hash''
                       = Inr (JObj [(''algorithm'', JStr a),
                                    (''hash'', JStr (bytes_hex (hasher_digest h
                                                 (hasher_update h (hasher_init h) bs))))])
                   \<and> (\<forall>c \<in> set (bytes_hex (hasher_digest h (hasher_update h (hasher_init h) bs))).
                         c \<in> set ''0123456789abcdef''))"
proof -
  let ?hx = "bytes_hex (hasher_digest h (hasher_update h (hasher_init h) bs))"
  let ?obj = "JObj [(''algorithm'', JStr a), (''hash'', JStr ?hx)]"
  have whole: "hash_loop h (hasher_init h) bs = hasher_update h (hasher_init h) bs"
    using app emp by (rule hash_loop_whole)
  have branch: "if hasher_xof h \<or> (\<forall>d. provenance_data r \<noteq> JObj d)
            then \<exists>m t. calculate_hash L fs r a = ([(ERROR, m)], Inl (TypeError t))
            else \<exists>l r'. calculate_hash L fs r a = (l, Inr r')
                   \<and> getitem (provenance_data r') ''artifact_hash'' = Inr ?obj
                   \<and> (\<forall>c \<in> set ?hx. c \<in> set ''0123456789abcdef'')"
  proof (cases "hasher_xof h \<or> (\<forall>d. provenance_data r \<noteq> JObj d)")
    case True
    then have "\<exists>m t. calculate_hash L fs r a = ([(ERROR, m)], Inl (TypeError t))"
    proof
      assume "hasher_xof h"
      with rd alg show ?thesis using calculate_hash_no_length by blast
    next
      assume "\<forall>d. provenance_data r \<noteq> JObj d"
      with rd alg show ?thesis by (rule calculate_hash_not_dict)
    qed
    with True show ?thesis by (simp only: if_True)
  next
    case False
    then have fixed: "\<not> hasher_xof h" and "\<exists>d. provenance_data r = JObj d" by simp_all
    then obtain d where dict: "provenance_data r = JObj d" by blast
    let ?r' = "r\<lparr>provenance_data := JObj (dict_set ''artifact_hash'' ?obj d)\<rparr>"
    have hx: "hexdigest h (hash_loop h (hasher_init h) bs) = Inr ?hx"
      using fixed whole by (simp add: hexdigest_fixed)
    have run: "calculate_hash L fs r a = ([(INFO, ''Calculated '' @ a @ '' hash: '' @ ?hx)], Inr ?r')"
      using rd alg hx dict by (rule calculate_hash_success)
    have got: "getitem (provenance_data ?r') ''artifact_hash'' = Inr ?obj"
      by (simp add: map_of_dict_set)
    have lower: "\<forall>c \<in> set ?hx. c \<in> set ''0123456789abcdef''"
      by (intro ballI) (rule bytes_hex_lower)
    have "\<exists>l r'. calculate_hash L fs r a = (l, Inr r')
                   \<and> getitem (provenance_data r') ''artifact_hash'' = Inr ?obj
                   \<and> (\<forall>c \<in> set ?hx. c \<in> set ''0123456789abcdef'')"
      by (intro exI conjI) (rule run got lower)+
    with False show ?thesis by (simp only: if_False)
  qed
  from whole branch show ?thesis by (rule conjI)
qed

theorem calculate_hash_digest_witness:
  "open_read hello_fs (artifact_path demo_recorder) = Inr ''hello''
   \<and> hashlib_new demo_lib ''sum16'' = Some (sum_hasher 2)
   \<and> \<not> hasher_xof (sum_hasher 2)
   \<and> hash_loop (sum_hasher 2) (hasher_init (sum_hasher 2)) ''hello''
       = hasher_update (sum_hasher 2) (hasher_init (sum_hasher 2)) ''hello''
   \<and> (\<exists>l r'. calculate_hash demo_lib hello_fs demo_recorder ''sum16'' = (l, Inr r')
         \<and> getitem (provenance_data r') ''artifact_hash''
             = Inr (JObj [(''algorithm'', JStr ''sum16''), (''hash'', JStr ''0214'')]))"
proof -
  have rd: "open_read hello_fs (artifact_path demo_recorder) = Inr ''hello''"
    by (simp add: hello_fs_read demo_recorder_def)
  have cond: "\<not> (hasher_xof (sum_hasher 2) \<or> (\<forall>d. provenance_data demo_recorder \<noteq> JObj d))"
    using sum_hasher_fixed[of 2] demo_recorder_data by simp
  note t = calculate_hash_digest[OF rd demo_hashers(2) sum_hasher_streams sum_hasher_empty]
  note whole = t[THEN conjunct1]
  note ok = t[THEN conjunct2, unfolded if_not_P[OF cond] hello_sum16]
  from ok obtain l r' where
    run: "calculate_hash demo_lib hello_fs demo_recorder ''sum16'' = (l, Inr r')"
    and got: "getitem (provenance_data r') ''artifact_hash''
             = Inr (JObj [(''algorithm'', JStr ''sum16''), (''hash'', JStr ''0214'')])"
    by (elim exE conjE)
  have res: "\<exists>l r'. calculate_hash demo_lib hello_fs demo_recorder ''sum16'' = (l, Inr r')
         \<and> getitem (provenance_data r') ''artifact_hash''
             = Inr (JObj [(''algorithm'', JStr ''sum16''), (''hash'', JStr ''0214'')])"
    by (intro exI conjI) (rule run got)+
  show ?thesis
    by (intro conjI) (rule rd demo_hashers(2) sum_hasher_fixed whole res)+
qed

section \<open>Appending build steps\<close>

lemma add_build_step_success:
  assumes "provenance_data r = JObj d" and "map_of d ''build_steps'' = Some (JArr steps)"
  shows "add_build_step now r c v =
           ([(INFO, ''Added build step: '' @ c)],
            Inr (r\<lparr>provenance_data :=
                     JObj (dict_set ''build_steps'' (JArr (steps @ [make_step now c v])) d)\<rparr>))"
  using assms by (simp add: add_build_step_def)

lemma getitem_Inr:
  "getitem v k = Inr x \<Longrightarrow> \<exists>d. v = JObj d \<and> map_of d k = Some x"
  by (cases v) (auto split: option.splits)

lemma append_Inr: "append v x = Inr y \<Longrightarrow> \<exists>xs. v = JArr xs \<and> y = JArr (xs @ [x])"
  by (cases v) auto

lemma add_build_step_Inr:
  assumes "add_build_step now r c v = (l, Inr r')"
  shows "\<exists>d steps. provenance_data r = JObj d \<and> map_of d ''build_steps'' = Some (JArr steps)
           \<and> r' = r\<lparr>provenance_data :=
                       JObj (dict_set ''build_steps'' (JArr (steps @ [make_step now c v])) d)\<rparr>"
proof -
  from assms obtain st where g: "getitem (provenance_data r) ''build_steps'' = Inr st"
    by (auto simp: add_build_step_def split: sum.splits)
  then obtain d where d: "provenance_data r = JObj d" "map_of d ''build_steps'' = Some st"
    using getitem_Inr by blast
  from assms g obtain st' where a: "append st (make_step now c v) = Inr st'"
    by (auto simp: add_build_step_def split: sum.splits)
  then obtain steps where s: "st = JArr steps" using append_Inr by blast
  with d assms add_build_step_success[of r d steps now c v] show ?thesis by auto
qed

lemma make_step_version:
  "has_key (make_step now c v) ''version'' \<longleftrightarrow> (\<exists>s. v = Some s \<and> s \<noteq> [])"
  by (cases v) (auto simp: make_step_def has_key_def truthy_def)

lemma make_step_version_value:
  "getitem (make_step now c v) ''version'' =
     (if \<exists>s. v = Some s \<and> s \<noteq> [] then Inr (JStr (the v)) else Inl (KeyError ''version''))"
  by (cases v) (auto simp: make_step_def truthy_def)

text \<open>
  C5, as stated, fails: a version that is supplied but empty (\<open>--version ""\<close>) is dropped
  by \<open>if version:\<close>, and the appended step has no \<open>version\<close> field.
\<close>

theorem version_field_counterexample:
  "add_build_step ''2024-05-01T10:00:01'' demo_recorder ''make'' (Some '''')
     = ([(INFO, ''Added build step: make'')],
        Inr (demo_recorder\<lparr>provenance_data :=
               JObj [(''artifact'', JStr ''foo.bin''),
                     (''created_at'', JStr ''2024-05-01T10:00:00Z''),
                     (''build_steps'',
                        JArr [JObj [(''command'', JStr ''make''),
                                    (''executed_at'', JStr ''2024-05-01T10:00:01Z'')]]),
                     (''artifact_hash'', JNull)]\<rparr>))
   \<and> \<not> has_key (JObj [(''command'', JStr ''make''),
                        (''executed_at'', JStr ''2024-05-01T10:00:01Z'')]) ''version''"
  by (simp add: add_build_step_def demo_recorder_def fresh_data_def make_step_def truthy_def has_key_def)

text \<open>
  C5, amended. For every call of \<open>add_build_step\<close> that returns, the appended step is the
  last entry of \<open>build_steps\<close>; it has the field \<open>version\<close> if and only if a non-empty
  version was supplied, and then the field holds that string (never a null placeholder).
\<close>

theorem version_field_iff_nonempty:
  assumes "add_build_step now r c v = (l, Inr r')"
  shows "\<exists>steps. getitem (provenance_data r') ''build_steps'' = Inr (JArr (steps @ [make_step now c v]))
           \<and> (has_key (make_step now c v) ''version'' \<longleftrightarrow> (\<exists>s. v = Some s \<and> s \<noteq> []))
           \<and> (has_key (make_step now c v) ''version''
                 \<longrightarrow> getitem (make_step now c v) ''version'' = Inr (JStr (the v)))"
proof -
  from add_build_step_Inr[OF assms] obtain d steps where
    "r' = r\<lparr>provenance_data := JObj (dict_set ''build_steps'' (JArr (steps @ [make_step now c v])) d)\<rparr>"
    by blast
  then have "getitem (provenance_data r') ''build_steps'' = Inr (JArr (steps @ [make_step now c v]))"
    by (simp add: map_of_dict_set)
  then show ?thesis
    using make_step_version[of now c v] make_step_version_value[of now c v] by auto
qed

theorem version_field_iff_nonempty_witness:
  "add_build_step ''2024-05-01T10:00:01'' demo_recorder ''gcc -o foo foo.c'' (Some ''gcc 11.2'')
     = ([(INFO, ''Added build step: gcc -o foo foo.c'')],
        Inr (demo_recorder\<lparr>provenance_data :=
               JObj [(''artifact'', JStr ''foo.bin''),
                     (''created_at'', JStr ''2024-05-01T10:00:00Z''),
                     (''build_steps'',
                        JArr [make_step ''2024-05-01T10:00:01'' ''gcc -o foo foo.c'' (Some ''gcc 11.2'')]),
                     (''artifact_hash'', JNull)]\<rparr>))
   \<and> has_key (make_step ''2024-05-01T10:00:01'' ''gcc -o foo foo.c'' (Some ''gcc 11.2'')) ''version''
   \<and> getitem (make_step ''2024-05-01T10:00:01'' ''gcc -o foo foo.c'' (Some ''gcc 11.2'')) ''version''
       = Inr (JStr ''gcc 11.2'')"
proof -
  have run: "add_build_step ''2024-05-01T10:00:01'' demo_recorder ''gcc -o foo foo.c'' (Some ''gcc 11.2'')
     = ([(INFO, ''Added build step: gcc -o foo foo.c'')],
        Inr (demo_recorder\<lparr>provenance_data :=
               JObj [(''artifact'', JStr ''foo.bin''),
                     (''created_at'', JStr ''2024-05-01T10:00:00Z''),
                     (''build_steps'',
                        JArr [make_step ''2024-05-01T10:00:01'' ''gcc -o foo foo.c'' (Some ''gcc 11.2'')]),
                     (''artifact_hash'', JNull)]\<rparr>))"
    by (simp add: add_build_step_def demo_recorder_def fresh_data_def)
  from version_field_iff_nonempty[OF run] show ?thesis using run by simp
qed

lemma build_steps_of_dict:
  "provenance_data r = JObj d \<Longrightarrow> map_of d ''build_steps'' = Some (JArr steps) \<Longrightarrow>
   build_steps_of r = steps"
  by (simp add: build_steps_of_def)

lemma add_build_steps_appends:
  "provenance_data r = JObj d \<Longrightarrow> map_of d ''build_steps'' = Some (JArr steps) \<Longrightarrow>
   \<exists>r'. add_build_steps r calls = Inr r' \<and> build_steps_of r' = steps @ map step_of calls"
proof (induction calls arbitrary: r d steps)
  case Nil
  then show ?case by (simp add: build_steps_of_dict)
next
  case (Cons call calls)
  obtain now c v where call: "call = (now, c, v)" by (cases call) auto
  let ?d1 = "dict_set ''build_steps'' (JArr (steps @ [make_step now c v])) d"
  let ?r1 = "r\<lparr>provenance_data := JObj ?d1\<rparr>"
  have step: "add_build_step now r c v = ([(INFO, ''Added build step: '' @ c)], Inr ?r1)"
    using Cons.prems by (rule add_build_step_success)
  have "provenance_data ?r1 = JObj ?d1" by simp
  moreover have "map_of ?d1 ''build_steps'' = Some (JArr (steps @ [make_step now c v]))"
    by (simp add: map_of_dict_set)
  ultimately obtain r' where
    "add_build_steps ?r1 calls = Inr r'"
    "build_steps_of r' = (steps @ [make_step now c v]) @ map step_of calls"
    using Cons.IH by blast
  then show ?case using step call by (simp add: step_of_def)
qed

text \<open>
  C4, as stated, fails: on a record that already holds one step, a sequence of one call
  leaves \<open>build_steps\<close> with two entries, not one.
\<close>

theorem append_only_counterexample:
  "map_sum id build_steps_of
     (add_build_steps one_step_recorder [(''2024-05-01T10:00:01'', ''make'', None)])
   = Inr [JObj [(''command'', JStr ''gcc -c foo.c''), (''executed_at'', JStr ''2024-04-30T09:00:01Z'')],
          JObj [(''command'', JStr ''make''), (''executed_at'', JStr ''2024-05-01T10:00:01Z'')]]
   \<and> length [(''2024-05-01T10:00:01'', ''make'', None :: string option)] = 1"
  by (simp add: one_step_recorder_def add_build_step_def build_steps_of_def make_step_def truthy_def)

text \<open>
  C4, amended. On a record whose document is a dictionary with a list of \<open>k\<close> entries
  under \<open>build_steps\<close>, every sequence of \<open>N\<close> calls returns, and the list afterwards is
  the old list followed by the steps of the calls in call order: it has \<open>k + N\<close> entries
  (\<open>N\<close> on a fresh record), and every earlier entry is what it was.
\<close>

theorem append_only:
  assumes "provenance_data r = JObj d" and "map_of d ''build_steps'' = Some (JArr steps)"
  shows "\<exists>r'. add_build_steps r calls = Inr r'
           \<and> build_steps_of r' = steps @ map step_of calls
           \<and> length (build_steps_of r') = length steps + length calls
           \<and> (\<forall>i < length steps. build_steps_of r' ! i = steps ! i)
           \<and> (\<forall>j < length calls. build_steps_of r' ! (length steps + j) = step_of (calls ! j))"
proof -
  from add_build_steps_appends[OF assms, of calls] obtain r' where
    r': "add_build_steps r calls = Inr r'" "build_steps_of r' = steps @ map step_of calls"
    by blast
  then show ?thesis by (auto simp: nth_append)
qed

theorem append_only_witness:
  "provenance_data demo_recorder
     = JObj [(''artifact'', JStr ''foo.bin''), (''created_at'', JStr ''2024-05-01T10:00:00Z''),
             (''build_steps'', JArr []), (''artifact_hash'', JNull)]
   \<and> (\<exists>r'. add_build_steps demo_recorder
               [(''2024-05-01T10:00:01'', ''gcc -c foo.c'', Some ''gcc 11.2''),
                (''2024-05-01T10:00:02'', ''make'', None)] = Inr r'
          \<and> build_steps_of r'
              = [make_step ''2024-05-01T10:00:01'' ''gcc -c foo.c'' (Some ''gcc 11.2''),
                 make_step ''2024-05-01T10:00:02'' ''make'' None]
          \<and> length (build_steps_of r') = 2)"
proof -
  have d: "provenance_data demo_recorder
     = JObj [(''artifact'', JStr ''foo.bin''), (''created_at'', JStr ''2024-05-01T10:00:00Z''),
             (''build_steps'', JArr []), (''artifact_hash'', JNull)]"
    by (simp add: demo_recorder_def fresh_data_def)
  have s: "map_of [(''artifact'', JStr ''foo.bin''), (''created_at'', JStr ''2024-05-01T10:00:00Z''),
             (''build_steps'', JArr []), (''artifact_hash'', JNull)] ''build_steps'' = Some (JArr [])"
    by simp
  from append_only[OF d s, of "[(''2024-05-01T10:00:01'', ''gcc -c foo.c'', Some ''gcc 11.2''),
                (''2024-05-01T10:00:02'', ''make'', None)]"]
  show ?thesis using d by (auto simp: step_of_def)
qed

section \<open>Hashing twice\<close>

lemma setitem_Inr: "setitem v k x = Inr y \<Longrightarrow> \<exists>d. v = JObj d \<and> y = JObj (dict_set k x d)"
  by (cases v) auto

lemma calculate_hash_Inr:
  assumes "calculate_hash L fs r a = (l, Inr r')"
  shows "\<exists>h bs hx d. hashlib_new L a = Some h \<and> open_read fs (artifact_path r) = Inr bs
           \<and> hexdigest h (hash_loop h (hasher_init h) bs) = Inr hx
           \<and> provenance_data r = JObj d
           \<and> r' = r\<lparr>provenance_data :=
                       JObj (dict_set ''artifact_hash''
                               (JObj [(''algorithm'', JStr a), (''hash'', JStr hx)]) d)\<rparr>"
proof -
  from assms obtain h where h: "hashlib_new L a = Some h"
    by (auto simp: calculate_hash_def split: if_splits option.splits sum.splits)
  from assms h obtain bs where bs: "open_read fs (artifact_path r) = Inr bs"
    by (auto simp: calculate_hash_def split: if_splits option.splits sum.splits)
  from assms h bs obtain hx where hx: "hexdigest h (hash_loop h (hasher_init h) bs) = Inr hx"
    by (auto simp: calculate_hash_def split: if_splits option.splits sum.splits)
  from assms h bs hx obtain y where
    "setitem (provenance_data r) ''artifact_hash''
       (JObj [(''algorithm'', JStr a), (''hash'', JStr hx)]) = Inr y"
    by (auto simp: calculate_hash_def split: if_splits option.splits sum.splits)
  then obtain d where d: "provenance_data r = JObj d" using setitem_Inr by blast
  from assms calculate_hash_success[OF bs h hx d] h bs hx d show ?thesis by auto
qed

lemma dict_set_twice: "dict_set k v (dict_set k u d) = dict_set k v d"
  by (induction d) auto

lemma count_key_dict_set:
  "distinct (map fst d) \<Longrightarrow> count_list (map fst (dict_set k v d)) k = 1"
  by (induction d) (auto simp: count_list_0_iff)

text \<open>
  C7. After two calls of \<open>calculate_hash\<close> that return, with algorithms \<open>a1\<close> then \<open>a2\<close>, on a
  record whose dictionary has distinct keys (as every Python \<open>dict\<close> has), the document
  has exactly one key \<open>artifact_hash\<close>; its value is the algorithm \<open>a2\<close> with the digest the
  second call computed, and the record is the one the second call alone would have
  produced from the original record: nothing of the first call is kept.
\<close>

theorem hash_overwritten:
  assumes first: "calculate_hash L fs r a1 = (l1, Inr r1)"
    and second: "calculate_hash L fs' r1 a2 = (l2, Inr r2)"
    and dict: "provenance_data r = JObj d" and keys: "distinct (map fst d)"
  shows "\<exists>h2 bs2 d2. hashlib_new L a2 = Some h2 \<and> open_read fs' (artifact_path r) = Inr bs2
           \<and> provenance_data r2 = JObj d2
           \<and> hexdigest h2 (hash_loop h2 (hasher_init h2) bs2)
               = Inr (bytes_hex (hasher_digest h2 (hash_loop h2 (hasher_init h2) bs2)))
           \<and> map_of d2 ''artifact_hash''
               = Some (JObj [(''algorithm'', JStr a2),
                             (''hash'', JStr (bytes_hex (hasher_digest h2
                                                (hash_loop h2 (hasher_init h2) bs2))))])
           \<and> count_list (map fst d2) ''artifact_hash'' = 1
           \<and> calculate_hash L fs' r a2 = (l2, Inr r2)"
proof -
  from calculate_hash_Inr[OF first] obtain h1 bs1 hx1 d' where
    h1: "hashlib_new L a1 = Some h1" and d': "provenance_data r = JObj d'" and
    r1': "r1 = r\<lparr>provenance_data :=
                   JObj (dict_set ''artifact_hash''
                           (JObj [(''algorithm'', JStr a1), (''hash'', JStr hx1)]) d')\<rparr>"
    by blast
  from d' dict have "d' = d" by simp
  with r1' have
    r1: "r1 = r\<lparr>provenance_data :=
                   JObj (dict_set ''artifact_hash''
                           (JObj [(''algorithm'', JStr a1), (''hash'', JStr hx1)]) d)\<rparr>"
    by simp
  let ?d1 = "dict_set ''artifact_hash'' (JObj [(''algorithm'', JStr a1), (''hash'', JStr hx1)]) d"
  have p1: "provenance_data r1 = JObj ?d1" and a1: "artifact_path r1 = artifact_path r"
    using r1 by simp_all
  from calculate_hash_Inr[OF second] obtain h2 bs2 hx2 d1' where
    h2: "hashlib_new L a2 = Some h2" and bs2': "open_read fs' (artifact_path r1) = Inr bs2"
    and hx2: "hexdigest h2 (hash_loop h2 (hasher_init h2) bs2) = Inr hx2"
    and d1': "provenance_data r1 = JObj d1'"
    and r2': "r2 = r1\<lparr>provenance_data :=
                   JObj (dict_set ''artifact_hash''
                           (JObj [(''algorithm'', JStr a2), (''hash'', JStr hx2)]) d1')\<rparr>"
    by blast
  from d1' p1 have "d1' = ?d1" by simp
  with r2' have
    r2: "r2 = r1\<lparr>provenance_data :=
                   JObj (dict_set ''artifact_hash''
                           (JObj [(''algorithm'', JStr a2), (''hash'', JStr hx2)]) ?d1)\<rparr>"
    by simp
  from bs2' a1 have bs2: "open_read fs' (artifact_path r) = Inr bs2" by simp
  have hx2_def: "hx2 = bytes_hex (hasher_digest h2 (hash_loop h2 (hasher_init h2) bs2))"
    using hexdigest_Inr[OF hx2] by simp
  let ?obj2 = "JObj [(''algorithm'', JStr a2), (''hash'', JStr hx2)]"
  let ?d2 = "dict_set ''artifact_hash'' ?obj2 d"
  have p2: "provenance_data r2 = JObj ?d2" using r2 by (simp add: dict_set_twice)
  have same: "r2 = r\<lparr>provenance_data := JObj ?d2\<rparr>"
    using r2 r1 by (simp add: dict_set_twice)
  have l2: "l2 = [(INFO, ''Calculated '' @ a2 @ '' hash: '' @ hx2)]"
    using second calculate_hash_success[OF bs2' h2 hx2 p1] by simp
  have direct: "calculate_hash L fs' r a2 = (l2, Inr r2)"
    using calculate_hash_success[OF bs2 h2 hx2 dict] same l2 by simp
  have val: "map_of ?d2 ''artifact_hash''
               = Some (JObj [(''algorithm'', JStr a2),
                             (''hash'', JStr (bytes_hex (hasher_digest h2
                                                (hash_loop h2 (hasher_init h2) bs2))))])"
    using hx2_def by (simp add: map_of_dict_set)
  have hx2': "hexdigest h2 (hash_loop h2 (hasher_init h2) bs2)
               = Inr (bytes_hex (hasher_digest h2 (hash_loop h2 (hasher_init h2) bs2)))"
    using hx2 hx2_def by simp
  have cnt: "count_list (map fst ?d2) ''artifact_hash'' = 1"
    using keys by (rule count_key_dict_set)
  show ?thesis
    by (intro exI conjI) (rule h2 bs2 p2 hx2' val cnt direct)+
qed

theorem hash_overwritten_witness:
  "\<exists>l1 r1 l2 r2.
      calculate_hash demo_lib hello_fs demo_recorder ''sum8'' = (l1, Inr r1)
    \<and> getitem (provenance_data r1) ''artifact_hash''
        = Inr (JObj [(''algorithm'', JStr ''sum8''), (''hash'', JStr ''14'')])
    \<and> calculate_hash demo_lib hello_fs r1 ''sum16'' = (l2, Inr r2)
    \<and> getitem (provenance_data r2) ''artifact_hash''
        = Inr (JObj [(''algorithm'', JStr ''sum16''), (''hash'', JStr ''0214'')])
    \<and> provenance_data r2
        = JObj [(''artifact'', JStr ''foo.bin''), (''created_at'', JStr ''2024-05-01T10:00:00Z''),
                (''build_steps'', JArr []),
                (''artifact_hash'', JObj [(''algorithm'', JStr ''sum16''), (''hash'', JStr ''0214'')])]"
proof -
  let ?d = "[(''artifact'', JStr ''foo.bin''), (''created_at'', JStr ''2024-05-01T10:00:00Z''),
             (''build_steps'', JArr []), (''artifact_hash'', JNull)]"
  let ?d1 = "dict_set ''artifact_hash''
               (JObj [(''algorithm'', JStr ''sum8''), (''hash'', JStr ''14'')]) ?d"
  let ?r1 = "demo_recorder\<lparr>provenance_data := JObj ?d1\<rparr>"
  have rd: "open_read hello_fs (artifact_path demo_recorder) = Inr ''hello''"
    by (simp add: hello_fs_read demo_recorder_def)
  have rd1: "open_read hello_fs (artifact_path ?r1) = Inr ''hello''"
    by (simp add: hello_fs_read demo_recorder_def)
  have c1: "calculate_hash demo_lib hello_fs demo_recorder ''sum8''
              = ([(INFO, ''Calculated sum8 hash: 14'')], Inr ?r1)"
    using calculate_hash_success[OF rd demo_hashers(1) hello_loop8 demo_recorder_data] by simp
  have d1: "provenance_data ?r1 = JObj ?d1" by simp
  obtain l2 r2 where c2: "calculate_hash demo_lib hello_fs ?r1 ''sum16'' = (l2, Inr r2)"
    using calculate_hash_success[OF rd1 demo_hashers(2) hello_loop16 d1] by simp
  have keys: "distinct (map fst ?d)" by simp
  from hash_overwritten[OF c1 c2 demo_recorder_data keys] obtain d2 where
    p2: "provenance_data r2 = JObj d2"
    and v2: "map_of d2 ''artifact_hash''
               = Some (JObj [(''algorithm'', JStr ''sum16''), (''hash'', JStr ''0214'')])"
    and direct: "calculate_hash demo_lib hello_fs demo_recorder ''sum16'' = (l2, Inr r2)"
    using demo_hashers(2) rd hello_loop16 by auto
  have whole: "provenance_data r2
        = JObj [(''artifact'', JStr ''foo.bin''), (''created_at'', JStr ''2024-05-01T10:00:00Z''),
                (''build_steps'', JArr []),
                (''artifact_hash'', JObj [(''algorithm'', JStr ''sum16''), (''hash'', JStr ''0214'')])]"
    using direct calculate_hash_success[OF rd demo_hashers(2) hello_loop16 demo_recorder_data]
    by auto
  have g1: "getitem (provenance_data ?r1) ''artifact_hash''
        = Inr (JObj [(''algorithm'', JStr ''sum8''), (''hash'', JStr ''14'')])"
    by simp
  have g2: "getitem (provenance_data r2) ''artifact_hash''
        = Inr (JObj [(''algorithm'', JStr ''sum16''), (''hash'', JStr ''0214'')])"
    using p2 v2 by simp
  show ?thesis
    by (intro exI conjI) (rule c1 g1 c2 g2 whole)+
qed

section \<open>Loading the provenance file\<close>

lemma demo_load_binary: "json_load demo_lib [CHR 0xFF] = Inl (UnicodeDecodeError ''invalid start byte'')"
  by (simp add: demo_lib_def demo_json_load_def)

lemma demo_load_garbage: "json_load demo_lib ''not json'' = Inl (JSONDecodeError ''Expecting value'')"
  by code_simp

text \<open>
  What the handler \<open>except (FileNotFoundError, json.JSONDecodeError)\<close> absorbs. When the
  provenance path does not exist, or it is a readable file whose text the JSON parser
  rejects (\<open>JSONDecodeError\<close>), the constructor returns a fresh record: \<open>artifact\<close> is the
  caller's artifact path, \<open>created_at\<close> the current time, \<open>build_steps\<close> empty and
  \<open>artifact_hash\<close> \<open>None\<close>. In the second case exactly one warning is logged; in both the
  run goes on.
\<close>

lemma init_recorder_fallback:
  assumes "entries fs pf = None
           \<or> (\<exists>bs m. open_read fs pf = Inr bs \<and> json_load L bs = Inl (JSONDecodeError m))"
  shows "\<exists>l. init_recorder L fs now ap pf
               = (l, Inr \<lparr>artifact_path = ap, provenance_file = pf,
                          provenance_data = fresh_data ap now\<rparr>)
           \<and> getitem (fresh_data ap now) ''artifact'' = Inr (JStr ap)
           \<and> getitem (fresh_data ap now) ''created_at'' = Inr (JStr (now @ ''Z''))
           \<and> getitem (fresh_data ap now) ''build_steps'' = Inr (JArr [])
           \<and> getitem (fresh_data ap now) ''artifact_hash'' = Inr JNull
           \<and> (if entries fs pf = None then l = [] else \<exists>m. l = [(WARNING, m)])"
proof -
  have fields:
    "getitem (fresh_data ap now) ''artifact'' = Inr (JStr ap)"
    "getitem (fresh_data ap now) ''created_at'' = Inr (JStr (now @ ''Z''))"
    "getitem (fresh_data ap now) ''build_steps'' = Inr (JArr [])"
    "getitem (fresh_data ap now) ''artifact_hash'' = Inr JNull"
    by (simp_all add: fresh_data_def)
  from assms show ?thesis
  proof
    assume "entries fs pf = None"
    then show ?thesis using init_recorder_absent[of fs pf L now ap] fields by simp
  next
    assume "\<exists>bs m. open_read fs pf = Inr bs \<and> json_load L bs = Inl (JSONDecodeError m)"
    then obtain bs m where rd: "open_read fs pf = Inr bs"
      and bad: "json_load L bs = Inl (JSONDecodeError m)" by blast
    from rd have "entries fs pf \<noteq> None"
      using open_read_exists by (auto simp: os_path_exists_def)
    then show ?thesis using init_recorder_parse_failure[OF rd bad, of now ap] fields by simp
  qed
qed

text \<open>
  What it lets through. Any other exception raised while the file is opened, decoded or
  parsed leaves the constructor, and \<open>main\<close> logs it and exits with status 1 with the file
  system unchanged.
\<close>

lemma main_load_failure:
  assumes art: "os_path_exists fs (args_artifact_path a)"
    and rd: "open_read fs (args_provenance_file a) = Inr bs"
    and bad: "json_load L bs = Inl e"
    and other: "\<not> is_FileNotFoundError e" "\<not> is_JSONDecodeError e"
  shows "main L t0 t1 a fs = (1, fs, [(ERROR, ''An error occurred: '' @ str_exn e)])"
  using art init_recorder_other_failure[OF rd bad other, of t0 "args_artifact_path a"] other
  by (simp add: main_def main_body_def)

text \<open>
  C3. The claim promises a fresh record and a warning for every provenance file that exists
  and does not parse as JSON. The program does that for text the parser rejects, but not
  for bytes that are not text: with a provenance file holding the single byte \<open>0xFF\<close>,
  reading it raises \<open>UnicodeDecodeError\<close>, which the handler of \<open>load_existing_provenance\<close>
  does not list. No fresh record is made, no warning is logged, and \<open>main\<close> exits with
  status 1. Beside it, the same run on a provenance file holding \<open>not json\<close>: one warning
  and a fresh record.
\<close>

theorem undecodable_provenance_file_aborts:
  "os_path_exists binary_fs ''provenance.json''
   \<and> open_read binary_fs ''provenance.json'' = Inr [CHR 0xFF]
   \<and> json_load demo_lib [CHR 0xFF] = Inl (UnicodeDecodeError ''invalid start byte'')
   \<and> init_recorder demo_lib binary_fs ''2024-05-01T10:00:00'' ''foo.bin'' ''provenance.json''
       = ([], Inl (UnicodeDecodeError ''invalid start byte''))
   \<and> main demo_lib ''2024-05-01T10:00:00'' ''2024-05-01T10:00:01'' demo_args binary_fs
       = (1, binary_fs, [(ERROR, ''An error occurred: invalid start byte'')])
   \<and> open_read garbage_fs ''provenance.json'' = Inr ''not json''
   \<and> json_load demo_lib ''not json'' = Inl (JSONDecodeError ''Expecting value'')
   \<and> init_recorder demo_lib garbage_fs ''2024-05-01T10:00:00'' ''foo.bin'' ''provenance.json''
       = ([(WARNING, ''Could not load existing provenance file: Expecting value. Starting fresh.'')],
          Inr \<lparr>artifact_path = ''foo.bin'', provenance_file = ''provenance.json'',
               provenance_data = fresh_data ''foo.bin'' ''2024-05-01T10:00:00''\<rparr>)"
proof -
  have rd: "open_read binary_fs ''provenance.json'' = Inr [CHR 0xFF]"
    by (simp add: open_read_def binary_fs_def)
  have init: "init_recorder demo_lib binary_fs ''2024-05-01T10:00:00'' ''foo.bin'' ''provenance.json''
       = ([], Inl (UnicodeDecodeError ''invalid start byte''))"
    using init_recorder_other_failure[OF rd demo_load_binary] by simp
  have ex: "os_path_exists binary_fs ''foo.bin''" and exp: "os_path_exists binary_fs ''provenance.json''"
    by (simp_all add: os_path_exists_def binary_fs_def)
  have m: "main demo_lib ''2024-05-01T10:00:00'' ''2024-05-01T10:00:01'' demo_args binary_fs
       = (1, binary_fs, [(ERROR, ''An error occurred: invalid start byte'')])"
    using init ex by (simp add: main_def main_body_def demo_args_def)
  have grd: "open_read garbage_fs ''provenance.json'' = Inr ''not json''"
    by (simp add: open_read_def garbage_fs_def)
  note ginit = init_recorder_parse_failure[OF grd demo_load_garbage,
                 of "''2024-05-01T10:00:00''" "''foo.bin''", simplified]
  show ?thesis
    by (intro conjI) (rule exp rd demo_load_binary init m grd demo_load_garbage ginit)+
qed

section \<open>Saving and the whole run\<close>

lemma save_provenance_Inr:
  "save_provenance L fs r = (l, Inr fs') \<Longrightarrow>
   fs' = fs\<lparr>entries := (entries fs)(provenance_file r \<mapsto> File (json_dump L (provenance_data r)))\<rparr>"
  by (auto simp: save_provenance_def open_write_def split: sum.splits option.splits node.splits)

lemma save_provenance_success:
  "entries fs (provenance_file r) \<noteq> Some Dir \<Longrightarrow> write_err fs (provenance_file r) = None \<Longrightarrow>
   save_provenance L fs r
     = ([(INFO, ''Provenance data saved to: '' @ provenance_file r)],
        Inr (fs\<lparr>entries := (entries fs)(provenance_file r \<mapsto> File (json_dump L (provenance_data r)))\<rparr>))"
  by (auto simp: save_provenance_def open_write_def split: option.splits node.splits)

lemma open_read_written:
  "read_err fs p = None \<Longrightarrow>
   open_read (fs\<lparr>entries := (entries fs)(p \<mapsto> File content)\<rparr>) p = Inr content"
  by (simp add: open_read_def)

text \<open>
  C6. When \<open>save_provenance\<close> returns and the file can be read back, constructing a
  recorder on the same provenance path loads exactly the document that was saved: the same
  \<open>artifact\<close>, the same steps with the same fields, the same \<open>artifact_hash\<close>, and no
  warning. The hypothesis on the library is that \<open>json.load\<close> reads back what \<open>json.dump\<close>
  wrote for this document.
\<close>

theorem save_then_load:
  assumes saved: "save_provenance L fs r = (l, Inr fs')"
    and codec: "json_load L (json_dump L (provenance_data r)) = Inr (provenance_data r)"
    and readable: "read_err fs (provenance_file r) = None"
  shows "init_recorder L fs' now ap (provenance_file r)
           = ([], Inr \<lparr>artifact_path = ap, provenance_file = provenance_file r,
                       provenance_data = provenance_data r\<rparr>)"
proof -
  have fs': "fs' = fs\<lparr>entries := (entries fs)(provenance_file r \<mapsto>
                         File (json_dump L (provenance_data r)))\<rparr>"
    using saved by (rule save_provenance_Inr)
  have "open_read fs' (provenance_file r) = Inr (json_dump L (provenance_data r))"
    unfolding fs' using readable by (rule open_read_written)
  then show ?thesis using codec by (rule init_recorder_loaded)
qed

lemma main_body_after_load:
  assumes prov: "open_read fs (args_provenance_file a) = Inr pbytes"
    and parsed: "json_load L pbytes = Inr v"
    and run: "main_body L t0 t1 a fs = (l, Inr fs')"
  shows "\<exists>r1 r2 l2.
           (if truthy (args_command a)
            then \<exists>l1. add_build_step t1
                         \<lparr>artifact_path = args_artifact_path a,
                          provenance_file = args_provenance_file a, provenance_data = v\<rparr>
                         (the (args_command a)) (args_version a) = (l1, Inr r1)
            else r1 = \<lparr>artifact_path = args_artifact_path a,
                       provenance_file = args_provenance_file a, provenance_data = v\<rparr>)
         \<and> calculate_hash L fs r1 (args_hash_algorithm a) = (l2, Inr r2)
         \<and> fs' = fs\<lparr>entries := (entries fs)(args_provenance_file a \<mapsto>
                                  File (json_dump L (provenance_data r2)))\<rparr>"
proof -
  let ?r0 = "\<lparr>artifact_path = args_artifact_path a,
              provenance_file = args_provenance_file a, provenance_data = v\<rparr>"
  have init: "init_recorder L fs t0 (args_artifact_path a) (args_provenance_file a) = ([], Inr ?r0)"
    using prov parsed by (rule init_recorder_loaded)
  obtain l1 res1 where step:
    "(if truthy (args_command a)
      then add_build_step t1 ?r0 (the (args_command a)) (args_version a)
      else ([], Inr ?r0)) = (l1, res1)"
    by (cases "if truthy (args_command a)
      then add_build_step t1 ?r0 (the (args_command a)) (args_version a)
      else ([], Inr ?r0)") auto
  from run init step obtain r1 where r1: "res1 = Inr r1"
    by (cases res1) (auto simp: main_body_def split: if_splits)
  obtain l2 res2 where hash: "calculate_hash L fs r1 (args_hash_algorithm a) = (l2, res2)"
    by (cases "calculate_hash L fs r1 (args_hash_algorithm a)") auto
  from run init step r1 hash obtain r2 where r2: "res2 = Inr r2"
    by (cases res2) (auto simp: main_body_def split: if_splits)
  obtain l3 res3 where save: "save_provenance L fs r2 = (l3, res3)"
    by (cases "save_provenance L fs r2") auto
  from run init step r1 hash r2 save have "res3 = Inr fs'"
    by (auto simp: main_body_def split: if_splits)
  with save have "fs' = fs\<lparr>entries := (entries fs)(provenance_file r2 \<mapsto>
                                  File (json_dump L (provenance_data r2)))\<rparr>"
    using save_provenance_Inr by blast
  moreover have "provenance_file r1 = args_provenance_file a"
    using step r1 add_build_step_paths[of t1 ?r0 "the (args_command a)" "args_version a" l1 r1]
    by (auto split: if_splits)
  moreover have "provenance_file r2 = provenance_file r1"
    using calculate_hash_Inr[of L fs r1 "args_hash_algorithm a" l2 r2] hash r2 by auto
  ultimately have fs': "fs' = fs\<lparr>entries := (entries fs)(args_provenance_file a \<mapsto>
                                  File (json_dump L (provenance_data r2)))\<rparr>"
    by simp
  have branch: "if truthy (args_command a)
            then \<exists>l1. add_build_step t1 ?r0 (the (args_command a)) (args_version a) = (l1, Inr r1)
            else r1 = ?r0"
    using step r1 by (auto split: if_splits)
  from branch hash r2 fs' show ?thesis by blast
qed

lemma main_cases:
  "(\<exists>l m. main L t0 t1 a fs = (1, fs, l @ [(ERROR, m)]))
   \<or> (\<exists>l fs'. main_body L t0 t1 a fs = (l, Inr fs') \<and> main L t0 t1 a fs = (0, fs', l))"
proof (cases "main_body L t0 t1 a fs")
  case (Pair l res)
  then show ?thesis by (cases res) (auto simp: main_def)
qed

lemma saved_text_loads: "json_load demo_lib saved_text = Inr (provenance_data full_recorder)"
  by code_simp

theorem save_then_load_witness:
  "\<exists>l fs'. save_provenance demo_lib hello_fs full_recorder = (l, Inr fs')
     \<and> init_recorder demo_lib fs' ''2024-05-02T08:00:00'' ''foo.bin'' ''provenance.json''
         = ([], Inr full_recorder)"
proof -
  have pf: "provenance_file full_recorder = ''provenance.json''"
    and ap: "artifact_path full_recorder = ''foo.bin''"
    by (simp_all add: full_recorder_def)
  have "entries hello_fs (provenance_file full_recorder) \<noteq> Some Dir"
    and wr: "write_err hello_fs (provenance_file full_recorder) = None"
    and rd: "read_err hello_fs (provenance_file full_recorder) = None"
    by (simp_all add: hello_fs_def pf)
  then obtain l fs' where saved: "save_provenance demo_lib hello_fs full_recorder = (l, Inr fs')"
    using save_provenance_success[of hello_fs full_recorder demo_lib] by blast
  have codec: "json_load demo_lib (json_dump demo_lib (provenance_data full_recorder))
                 = Inr (provenance_data full_recorder)"
    using saved_text_loads by (simp add: saved_text_def)
  from save_then_load[OF saved codec rd, of "''2024-05-02T08:00:00''" "''foo.bin''"]
  have "init_recorder demo_lib fs' ''2024-05-02T08:00:00'' ''foo.bin'' ''provenance.json''
         = ([], Inr full_recorder)"
    using pf ap by (simp add: full_recorder_def)
  with saved show ?thesis by blast
qed

section \<open>A second run on an existing provenance file\<close>

text \<open>
  When the run succeeds: the artifact and the provenance file can be read, the file parses
  to a dictionary (with a list under \<open>build_steps\<close> if a command is given), the backend
  knows the algorithm with a digest of fixed length, and the provenance file can be written.
\<close>

lemma main_success:
  assumes art: "open_read fs (args_artifact_path a) = Inr abytes"
    and prov: "open_read fs (args_provenance_file a) = Inr pbytes"
    and parsed: "json_load L pbytes = Inr (JObj d)"
    and steps: "truthy (args_command a) \<longrightarrow> (\<exists>steps. map_of d ''build_steps'' = Some (JArr steps))"
    and alg: "hashlib_new L (args_hash_algorithm a) = Some h"
    and fixed: "\<not> hasher_xof h"
    and wr: "write_err fs (args_provenance_file a) = None"
  shows "fst (main L t0 t1 a fs) = 0"
proof -
  let ?r0 = "\<lparr>artifact_path = args_artifact_path a,
              provenance_file = args_provenance_file a, provenance_data = JObj d\<rparr>"
  have ex: "os_path_exists fs (args_artifact_path a)" using art by (rule open_read_exists)
  have init: "init_recorder L fs t0 (args_artifact_path a) (args_provenance_file a) = ([], Inr ?r0)"
    using prov parsed by (rule init_recorder_loaded)
  obtain l1 r1 d1 where step:
    "(if truthy (args_command a)
      then add_build_step t1 ?r0 (the (args_command a)) (args_version a)
      else ([], Inr ?r0)) = (l1, Inr r1)"
    and r1: "provenance_data r1 = JObj d1" "artifact_path r1 = args_artifact_path a"
            "provenance_file r1 = args_provenance_file a"
  proof (cases "truthy (args_command a)")
    case True
    with steps obtain st where "map_of d ''build_steps'' = Some (JArr st)" by blast
    then show ?thesis
      using add_build_step_success[of ?r0 d st t1 "the (args_command a)" "args_version a"] True that
      by simp
  next
    case False
    then show ?thesis using that[of "[]" ?r0 d] by simp
  qed
  have rd1: "open_read fs (artifact_path r1) = Inr abytes" using art r1 by simp
  note hash = calculate_hash_success[OF rd1 alg hexdigest_fixed[OF fixed] r1(1)]
  have notdir: "entries fs (args_provenance_file a) \<noteq> Some Dir"
    using prov by (auto simp: open_read_def split: option.splits node.splits)
  show ?thesis
    using ex init step hash r1 notdir wr
    by (simp add: main_def main_body_def save_provenance_success)
qed

lemma second_fs_read:
  "open_read second_fs ''foo.bin'' = Inr ''hello''"
  "open_read second_fs ''bar.bin'' = Inr ''world''"
  "open_read second_fs ''provenance.json'' = Inr saved_text"
  by (simp_all add: open_read_def second_fs_def)

lemma saved_text_parsed:
  "json_load demo_lib saved_text
     = Inr (JObj [(''artifact'', JStr ''foo.bin''), (''created_at'', JStr ''2024-05-01T10:00:00Z''),
                  (''build_steps'',
                     JArr [JObj [(''command'', JStr ''gcc -o foo foo.c''),
                                 (''executed_at'', JStr ''2024-05-01T10:00:01Z''),
                                 (''version'', JStr ''gcc 11.2'')]]),
                  (''artifact_hash'', JObj [(''algorithm'', JStr ''sum16''), (''hash'', JStr ''0214'')])])"
  using saved_text_loads by (simp add: full_recorder_def)

text \<open>
  C8. A run that finds a provenance file that parses, and is given a command, either fails
  with exit status 1, or exits with status 0 and saves a document whose \<open>created_at\<close> is
  the one that was loaded and whose \<open>build_steps\<close> are the loaded steps, each unchanged
  and in its place, followed by the one new step. The clock readings of the run appear
  only in the new step.
\<close>

theorem second_run_keeps_history:
  assumes prov: "open_read fs (args_provenance_file a) = Inr pbytes"
    and parsed: "json_load L pbytes = Inr v"
    and cmd: "args_command a = Some c" "c \<noteq> []"
  shows "fst (main L t0 t1 a fs) = 1
         \<or> (\<exists>l d steps d'. v = JObj d \<and> map_of d ''build_steps'' = Some (JArr steps)
               \<and> main L t0 t1 a fs
                   = (0, fs\<lparr>entries := (entries fs)(args_provenance_file a \<mapsto>
                                           File (json_dump L (JObj d')))\<rparr>, l)
               \<and> map_of d' ''created_at'' = map_of d ''created_at''
               \<and> map_of d' ''build_steps''
                   = Some (JArr (steps @ [make_step t1 c (args_version a)])))"
proof -
  from main_cases[of L t0 t1 a fs] show ?thesis
  proof
    assume "\<exists>l m. main L t0 t1 a fs = (1, fs, l @ [(ERROR, m)])"
    then have "fst (main L t0 t1 a fs) = 1" by auto
    then show ?thesis by (rule disjI1)
  next
    assume "\<exists>l fs'. main_body L t0 t1 a fs = (l, Inr fs') \<and> main L t0 t1 a fs = (0, fs', l)"
    then obtain l fs' where body: "main_body L t0 t1 a fs = (l, Inr fs')"
      and m: "main L t0 t1 a fs = (0, fs', l)" by blast
    let ?r0 = "\<lparr>artifact_path = args_artifact_path a,
                provenance_file = args_provenance_file a, provenance_data = v\<rparr>"
    have tr: "truthy (args_command a)" using cmd by (simp add: truthy_def)
    from main_body_after_load[OF prov parsed body] tr obtain r1 r2 l1 l2 where
      s1: "add_build_step t1 ?r0 (the (args_command a)) (args_version a) = (l1, Inr r1)"
      and s2: "calculate_hash L fs r1 (args_hash_algorithm a) = (l2, Inr r2)"
      and fs': "fs' = fs\<lparr>entries := (entries fs)(args_provenance_file a \<mapsto>
                                  File (json_dump L (provenance_data r2)))\<rparr>"
      by auto
    from add_build_step_Inr[OF s1] cmd obtain d steps where
      v: "v = JObj d" and st: "map_of d ''build_steps'' = Some (JArr steps)"
      and r1: "r1 = ?r0\<lparr>provenance_data :=
                 JObj (dict_set ''build_steps''
                         (JArr (steps @ [make_step t1 c (args_version a)])) d)\<rparr>"
      by auto
    let ?d1 = "dict_set ''build_steps'' (JArr (steps @ [make_step t1 c (args_version a)])) d"
    from r1 have p1: "provenance_data r1 = JObj ?d1" by simp
    from calculate_hash_Inr[OF s2] p1 obtain obj where
      p2: "provenance_data r2 = JObj (dict_set ''artifact_hash'' obj ?d1)"
      by auto
    let ?d2 = "dict_set ''artifact_hash'' obj ?d1"
    have c: "map_of ?d2 ''created_at'' = map_of d ''created_at''"
      and b: "map_of ?d2 ''build_steps'' = Some (JArr (steps @ [make_step t1 c (args_version a)]))"
      by (simp_all add: map_of_dict_set)
    have run: "main L t0 t1 a fs
                 = (0, fs\<lparr>entries := (entries fs)(args_provenance_file a \<mapsto>
                                           File (json_dump L (JObj ?d2)))\<rparr>, l)"
      using m fs' p2 by simp
    show ?thesis
      by (rule disjI2) ((intro exI conjI), (rule v st run c b)+)
  qed
qed

theorem second_run_keeps_history_witness:
  "\<exists>l d'. main demo_lib ''2024-05-02T08:00:00'' ''2024-05-02T08:00:01'' second_args second_fs
             = (0, second_fs\<lparr>entries := (entries second_fs)(''provenance.json'' \<mapsto>
                                             File (json_dump demo_lib (JObj d')))\<rparr>, l)
     \<and> map_of d' ''created_at'' = Some (JStr ''2024-05-01T10:00:00Z'')
     \<and> map_of d' ''build_steps''
         = Some (JArr [JObj [(''command'', JStr ''gcc -o foo foo.c''),
                             (''executed_at'', JStr ''2024-05-01T10:00:01Z''),
                             (''version'', JStr ''gcc 11.2'')],
                       JObj [(''command'', JStr ''strip foo''),
                             (''executed_at'', JStr ''2024-05-02T08:00:01Z'')]])"
proof -
  let ?step = "JObj [(''command'', JStr ''gcc -o foo foo.c''),
                     (''executed_at'', JStr ''2024-05-01T10:00:01Z''),
                     (''version'', JStr ''gcc 11.2'')]"
  let ?d = "[(''artifact'', JStr ''foo.bin''), (''created_at'', JStr ''2024-05-01T10:00:00Z''),
             (''build_steps'', JArr [?step]),
             (''artifact_hash'', JObj [(''algorithm'', JStr ''sum16''), (''hash'', JStr ''0214'')])]"
  let ?main = "main demo_lib ''2024-05-02T08:00:00'' ''2024-05-02T08:00:01'' second_args second_fs"
  have art: "open_read second_fs (args_artifact_path second_args) = Inr ''hello''"
    by (simp add: second_fs_read second_args_def)
  have prov: "open_read second_fs (args_provenance_file second_args) = Inr saved_text"
    by (simp add: second_fs_read second_args_def)
  have steps: "map_of ?d ''build_steps'' = Some (JArr [?step])" by simp
  have cmd: "args_command second_args = Some ''strip foo''" "''strip foo'' \<noteq> []"
    by (simp_all add: second_args_def)
  have alg: "hashlib_new demo_lib (args_hash_algorithm second_args) = Some (sum_hasher 2)"
    by (simp add: demo_hashers second_args_def)
  have wr: "write_err second_fs (args_provenance_file second_args) = None"
    by (simp add: second_fs_def)
  have ok: "fst ?main = 0"
    using art prov saved_text_parsed _ alg sum_hasher_fixed wr
    by (rule main_success) (simp add: steps)
  from second_run_keeps_history[OF prov saved_text_parsed cmd,
         of "''2024-05-02T08:00:00''" "''2024-05-02T08:00:01''"] ok
  obtain l d' where
    m: "?main = (0, second_fs\<lparr>entries := (entries second_fs)(args_provenance_file second_args \<mapsto>
                                             File (json_dump demo_lib (JObj d')))\<rparr>, l)"
    and c: "map_of d' ''created_at'' = map_of ?d ''created_at''"
    and b: "map_of d' ''build_steps''
              = Some (JArr ([?step] @ [make_step ''2024-05-02T08:00:01'' ''strip foo''
                                         (args_version second_args)]))"
    by auto
  have m': "?main = (0, second_fs\<lparr>entries := (entries second_fs)(''provenance.json'' \<mapsto>
                                             File (json_dump demo_lib (JObj d')))\<rparr>, l)"
    using m by (simp add: second_args_def)
  have c': "map_of d' ''created_at'' = Some (JStr ''2024-05-01T10:00:00Z'')"
    using c by simp
  have b': "map_of d' ''build_steps''
         = Some (JArr [?step, JObj [(''command'', JStr ''strip foo''),
                                    (''executed_at'', JStr ''2024-05-02T08:00:01Z'')]])"
    using b by (simp add: make_step_def truthy_def second_args_def)
  show ?thesis
    by (intro exI conjI) (rule m' c' b')+
qed

text \<open>
  C10. A run whose provenance file parses either fails with exit status 1, or exits with
  status 0 and saves a document whose \<open>artifact\<close> entry is the one the file held,
  whatever artifact path the run was given, while \<open>artifact_hash\<close> names the algorithm of
  this run and the digest of the bytes found at the artifact path of this run.
\<close>

theorem artifact_field_is_kept:
  assumes prov: "open_read fs (args_provenance_file a) = Inr pbytes"
    and parsed: "json_load L pbytes = Inr v"
  shows "fst (main L t0 t1 a fs) = 1
         \<or> (\<exists>l d d' h bs. v = JObj d
               \<and> main L t0 t1 a fs
                   = (0, fs\<lparr>entries := (entries fs)(args_provenance_file a \<mapsto>
                                           File (json_dump L (JObj d')))\<rparr>, l)
               \<and> map_of d' ''artifact'' = map_of d ''artifact''
               \<and> hashlib_new L (args_hash_algorithm a) = Some h
               \<and> open_read fs (args_artifact_path a) = Inr bs
               \<and> map_of d' ''artifact_hash''
                   = Some (JObj [(''algorithm'', JStr (args_hash_algorithm a)),
                                 (''hash'', JStr (bytes_hex (hasher_digest h
                                                    (hash_loop h (hasher_init h) bs))))]))"
proof -
  from main_cases[of L t0 t1 a fs] show ?thesis
  proof
    assume "\<exists>l m. main L t0 t1 a fs = (1, fs, l @ [(ERROR, m)])"
    then have "fst (main L t0 t1 a fs) = 1" by auto
    then show ?thesis by (rule disjI1)
  next
    assume "\<exists>l fs'. main_body L t0 t1 a fs = (l, Inr fs') \<and> main L t0 t1 a fs = (0, fs', l)"
    then obtain l fs' where body: "main_body L t0 t1 a fs = (l, Inr fs')"
      and m: "main L t0 t1 a fs = (0, fs', l)" by blast
    let ?r0 = "\<lparr>artifact_path = args_artifact_path a,
                provenance_file = args_provenance_file a, provenance_data = v\<rparr>"
    from main_body_after_load[OF prov parsed body] obtain r1 r2 l2 where
      s1: "if truthy (args_command a)
           then \<exists>l1. add_build_step t1 ?r0 (the (args_command a)) (args_version a) = (l1, Inr r1)
           else r1 = ?r0"
      and s2: "calculate_hash L fs r1 (args_hash_algorithm a) = (l2, Inr r2)"
      and fs': "fs' = fs\<lparr>entries := (entries fs)(args_provenance_file a \<mapsto>
                                  File (json_dump L (provenance_data r2)))\<rparr>"
      by blast
    have "\<exists>d d1. v = JObj d \<and> provenance_data r1 = JObj d1
            \<and> map_of d1 ''artifact'' = map_of d ''artifact''
            \<and> artifact_path r1 = args_artifact_path a"
    proof (cases "truthy (args_command a)")
      case True
      with s1 obtain l1 where
        "add_build_step t1 ?r0 (the (args_command a)) (args_version a) = (l1, Inr r1)" by auto
      from add_build_step_Inr[OF this] show ?thesis by (auto simp: map_of_dict_set)
    next
      case False
      with s1 have r1: "r1 = ?r0" by simp
      from calculate_hash_Inr[OF s2] r1 show ?thesis by auto
    qed
    then obtain d d1 where v: "v = JObj d" and p1: "provenance_data r1 = JObj d1"
      and keep: "map_of d1 ''artifact'' = map_of d ''artifact''"
      and ap: "artifact_path r1 = args_artifact_path a" by blast
    from calculate_hash_Inr[OF s2] obtain h bs hx d1' where
      h: "hashlib_new L (args_hash_algorithm a) = Some h"
      and bs': "open_read fs (artifact_path r1) = Inr bs"
      and hx: "hexdigest h (hash_loop h (hasher_init h) bs) = Inr hx"
      and d1': "provenance_data r1 = JObj d1'"
      and r2: "r2 = r1\<lparr>provenance_data :=
                 JObj (dict_set ''artifact_hash''
                         (JObj [(''algorithm'', JStr (args_hash_algorithm a)),
                                (''hash'', JStr hx)]) d1')\<rparr>"
      by blast
    have hx_def: "hx = bytes_hex (hasher_digest h (hash_loop h (hasher_init h) bs))"
      using hexdigest_Inr[OF hx] by simp
    let ?obj = "JObj [(''algorithm'', JStr (args_hash_algorithm a)),
                      (''hash'', JStr (bytes_hex (hasher_digest h (hash_loop h (hasher_init h) bs))))]"
    let ?d2 = "dict_set ''artifact_hash'' ?obj d1"
    from d1' p1 have "d1' = d1" by simp
    with r2 hx_def have p2: "provenance_data r2 = JObj ?d2" by simp
    have bs: "open_read fs (args_artifact_path a) = Inr bs" using bs' ap by simp
    have k: "map_of ?d2 ''artifact'' = map_of d ''artifact''" using keep by (simp add: map_of_dict_set)
    have hv: "map_of ?d2 ''artifact_hash'' = Some ?obj" by (simp add: map_of_dict_set)
    have run: "main L t0 t1 a fs
                 = (0, fs\<lparr>entries := (entries fs)(args_provenance_file a \<mapsto>
                                           File (json_dump L (JObj ?d2)))\<rparr>, l)"
      using m fs' p2 by simp
    show ?thesis
      by (rule disjI2) ((intro exI conjI), (rule v run k h bs hv)+)
  qed
qed

theorem artifact_field_is_kept_witness:
  "\<exists>l d'. main demo_lib ''2024-05-02T08:00:00'' ''2024-05-02T08:00:01'' other_args second_fs
             = (0, second_fs\<lparr>entries := (entries second_fs)(''provenance.json'' \<mapsto>
                                             File (json_dump demo_lib (JObj d')))\<rparr>, l)
     \<and> args_artifact_path other_args = ''bar.bin''
     \<and> map_of d' ''artifact'' = Some (JStr ''foo.bin'')
     \<and> map_of d' ''artifact_hash''
         = Some (JObj [(''algorithm'', JStr ''sum16''), (''hash'', JStr ''0228'')])"
proof -
  let ?step = "JObj [(''command'', JStr ''gcc -o foo foo.c''),
                     (''executed_at'', JStr ''2024-05-01T10:00:01Z''),
                     (''version'', JStr ''gcc 11.2'')]"
  let ?d = "[(''artifact'', JStr ''foo.bin''), (''created_at'', JStr ''2024-05-01T10:00:00Z''),
             (''build_steps'', JArr [?step]),
             (''artifact_hash'', JObj [(''algorithm'', JStr ''sum16''), (''hash'', JStr ''0214'')])]"
  let ?main = "main demo_lib ''2024-05-02T08:00:00'' ''2024-05-02T08:00:01'' other_args second_fs"
  have art: "open_read second_fs (args_artifact_path other_args) = Inr ''world''"
    by (simp add: second_fs_read other_args_def)
  have prov: "open_read second_fs (args_provenance_file other_args) = Inr saved_text"
    by (simp add: second_fs_read other_args_def)
  have alg: "hashlib_new demo_lib (args_hash_algorithm other_args) = Some (sum_hasher 2)"
    by (simp add: demo_hashers other_args_def)
  have wr: "write_err second_fs (args_provenance_file other_args) = None"
    by (simp add: second_fs_def)
  have nocmd: "\<not> truthy (args_command other_args)"
    by (simp add: truthy_def other_args_def)
  have ok: "fst ?main = 0"
    using art prov saved_text_parsed _ alg sum_hasher_fixed wr
    by (rule main_success) (simp add: nocmd)
  from artifact_field_is_kept[OF prov saved_text_parsed,
         of "''2024-05-02T08:00:00''" "''2024-05-02T08:00:01''"] ok
  obtain l d' h bs where
    m: "?main = (0, second_fs\<lparr>entries := (entries second_fs)(args_provenance_file other_args \<mapsto>
                                             File (json_dump demo_lib (JObj d')))\<rparr>, l)"
    and k: "map_of d' ''artifact'' = map_of ?d ''artifact''"
    and h: "hashlib_new demo_lib (args_hash_algorithm other_args) = Some h"
    and bs: "open_read second_fs (args_artifact_path other_args) = Inr bs"
    and hv: "map_of d' ''artifact_hash''
               = Some (JObj [(''algorithm'', JStr (args_hash_algorithm other_args)),
                             (''hash'', JStr (bytes_hex (hasher_digest h
                                                (hash_loop h (hasher_init h) bs))))])"
    by auto
  have h2: "h = sum_hasher 2" using h alg by simp
  have bs2: "bs = ''world''" using bs art by simp
  have w: "bytes_hex (hasher_digest (sum_hasher 2)
             (hash_loop (sum_hasher 2) (hasher_init (sum_hasher 2)) ''world'')) = ''0228''"
    using hexdigest_Inr[OF world_loop16] by simp
  have m': "?main = (0, second_fs\<lparr>entries := (entries second_fs)(''provenance.json'' \<mapsto>
                                             File (json_dump demo_lib (JObj d')))\<rparr>, l)"
    using m by (simp add: other_args_def)
  have p: "args_artifact_path other_args = ''bar.bin''" by (simp add: other_args_def)
  have k': "map_of d' ''artifact'' = Some (JStr ''foo.bin'')" using k by simp
  have hv': "map_of d' ''artifact_hash''
         = Some (JObj [(''algorithm'', JStr ''sum16''), (''hash'', JStr ''0228'')])"
    using hv w by (simp add: h2 bs2 other_args_def)
  show ?thesis
    by (intro exI conjI) (rule m' p k' hv')+
qed

end
